theory Spec2Isabelle
  imports Complex_Main "HOL-Library.Word" "HOL-Library.Monad_Syntax"
begin

unbundle bit_operations_syntax

section \<open>Conventions of the embedding\<close>

text \<open>
  The firmware is C for an MSP430F2232. Every function of the menu module (Menu.c) and the
  page compositor of the display module (LCD.c) is translated as a HOL function on explicit
  state.

  \<^item> \<open>uint8_t\<close> values are natural numbers, with \<open>mod 256\<close> written where the C
    arithmetic can wrap; \<open>unsigned int\<close> is 16 bits wide on this target.
  \<^item> A \<open>float\<close> is the real number it denotes, and an arithmetic operation on floats
    gives the exact result rounded to single precision (\<open>float_round\<close> below). Infinities
    and NaN are not values of the model.
  \<^item> An array is a list. A store or a load outside an array is undefined behaviour in C:
    the model returns \<open>None\<close> at that point, so \<open>Some\<close> means that every array
    access of the run was inside its array.
  \<^item> A C string is the list of its characters before the terminating NUL.
\<close>

type_synonym float = real

text \<open>
  Single precision is IEEE 754 binary32: 24 significant bits, exponents from \<open>-126\<close> to
  \<open>127\<close>, rounding to the nearest float, a tie to the float with the even significand.
  \<open>float_exponent x\<close> is the exponent \<open>e\<close> of the binade of \<open>x\<close>,
  \<open>2 powi e \<le> \<bar>x\<bar> < 2 powi (e + 1)\<close>; below the smallest normal float it is
  \<open>-126\<close> (the subnormal floats have the spacing of the first binade), and it is no more
  than \<open>127\<close>. The floats of a binade are the multiples of \<open>2 powi (e - 23)\<close>.
\<close>

function float_exponent_from :: "int \<Rightarrow> real \<Rightarrow> int" where
  "float_exponent_from e x =
     (if e < 127 \<and> 2 powi (e + 1) \<le> \<bar>x\<bar> then float_exponent_from (e + 1) x else e)"
  by pat_completeness auto
termination
  by (relation "measure (\<lambda>(e, x). nat (127 - e))") auto

definition float_exponent :: "real \<Rightarrow> int" where
  "float_exponent x = float_exponent_from (- 126) x"

definition round_half_even :: "real \<Rightarrow> int" where
  "round_half_even y =
     (if y - of_int \<lfloor>y\<rfloor> < 1 / 2 \<or> (y - of_int \<lfloor>y\<rfloor> = 1 / 2 \<and> even \<lfloor>y\<rfloor>)
      then \<lfloor>y\<rfloor> else \<lfloor>y\<rfloor> + 1)"

definition float_round :: "real \<Rightarrow> float" where
  "float_round x =
     of_int (round_half_even (x / 2 powi (float_exponent x - 23))) * 2 powi (float_exponent x - 23)"

text \<open>
  \<open>a * b\<close> on floats. A product of magnitude \<open>2 powi 128\<close> or more is an infinity in
  C; the model keeps the product rounded with the spacing of the last binade there.
\<close>

definition float_mult :: "float \<Rightarrow> float \<Rightarrow> float" where
  "float_mult a b = float_round (a * b)"

definition NUL :: char where
  "NUL = CHR 0x00"

text \<open>\<open>a[i] = c\<close> for a signed index \<open>i\<close>.\<close>

definition store :: "'a list \<Rightarrow> int \<Rightarrow> 'a \<Rightarrow> 'a list option" where
  "store a i c = (if 0 \<le> i \<and> i < int (length a) then Some (a[nat i := c]) else None)"

section \<open>Common.h\<close>

definition BATTERY_VOLTAGE :: nat where
  "BATTERY_VOLTAGE = 8"

definition BATTERY_CURRENT :: nat where
  "BATTERY_CURRENT = 9"

definition CALIBRATION_POINTS :: "float list list" where
  "CALIBRATION_POINTS = [[2, 15], [1, 5]]"

record T_CalibrationInfo =
  measToCalibrate :: nat
  calibResults :: "float list"

text \<open>
  \<open>T_TextField\<close>: the fields \<open>x\<close> and \<open>y\<close> of the C struct are called \<open>x_pos\<close> and
  \<open>y_pos\<close> here. The type of \<open>pText\<close> is a parameter: the menu module stores pointers
  (\<open>text_ptr\<close> below), the display module reads the string a pointer refers to.
\<close>

record 'p T_TextField =
  pText :: 'p
  x_pos :: nat
  y_pos :: nat

section \<open>Menu.h\<close>

definition MENU_SAVE :: nat where
  "MENU_SAVE = 10"

definition MENU_CANCEL :: nat where
  "MENU_CANCEL = 11"

definition MENU_NO_ACTION :: nat where
  "MENU_NO_ACTION = 12"

definition MENU_MEASURE_1 :: nat where
  "MENU_MEASURE_1 = 13"

definition MENU_MEASURE_2 :: nat where
  "MENU_MEASURE_2 = 14"

datatype E_ButtonClicks = NO_CLICK | SHORT_CLICK | LONG_CLICK

datatype E_MenuStates =
  PANEL_VIEW | BATTERY_VIEW | MENU_VIEW_1 | MENU_VIEW_2 | MENU_VIEW_3
  | CALIBRATION_VIEW_1 | CALIBRATION_VIEW_2 | NO_MENU

text \<open>The integer value of each enumerator.\<close>

fun state_index :: "E_MenuStates \<Rightarrow> nat" where
  "state_index PANEL_VIEW = 0"
| "state_index BATTERY_VIEW = 1"
| "state_index MENU_VIEW_1 = 2"
| "state_index MENU_VIEW_2 = 3"
| "state_index MENU_VIEW_3 = 4"
| "state_index CALIBRATION_VIEW_1 = 5"
| "state_index CALIBRATION_VIEW_2 = 6"
| "state_index NO_MENU = 7"

text \<open>
  A \<open>char *\<close> of a text field: the null pointer \<open>UPDATABLE_DATA\<close>, the address of a
  string literal, or the address of row \<open>j\<close> of \<open>updatableCharTables\<close>.
\<close>

datatype text_ptr = UPDATABLE_DATA | Literal string | CharTable nat

record T_MenuView =
  textFields :: "text_ptr T_TextField list"
  textFieldCount :: nat

definition tf :: "text_ptr \<Rightarrow> nat \<Rightarrow> nat \<Rightarrow> text_ptr T_TextField" where
  "tf p a b = \<lparr>pText = p, x_pos = a, y_pos = b\<rparr>"

definition PANEL_VIEW_FIELDS :: "text_ptr T_TextField list" where
  "PANEL_VIEW_FIELDS =
    [tf (Literal ''PANEELI'') 0 2,
     tf (Literal ''JaNNITE'') 47 2,
     tf (Literal ''VIRTA'') 96 2,
     tf (Literal ''1'') 20 15,
     tf (Literal ''2'') 20 28,
     tf (Literal ''3'') 20 41,
     tf (Literal ''4'') 20 54,
     tf UPDATABLE_DATA 45 15,
     tf UPDATABLE_DATA 85 15,
     tf UPDATABLE_DATA 45 28,
     tf UPDATABLE_DATA 85 28,
     tf UPDATABLE_DATA 45 41,
     tf UPDATABLE_DATA 85 41,
     tf UPDATABLE_DATA 45 54,
     tf UPDATABLE_DATA 85 54]"

definition BATTERY_VIEW_FIELDS :: "text_ptr T_TextField list" where
  "BATTERY_VIEW_FIELDS =
    [tf (Literal ''AKKU'') 53 2,
     tf (Literal ''JaNNITE'') 10 20,
     tf (Literal ''VIRTA'') 80 20,
     tf UPDATABLE_DATA 5 38,
     tf UPDATABLE_DATA 70 38]"

definition MENU_1_FIELDS :: "text_ptr T_TextField list" where
  "MENU_1_FIELDS =
    [tf (Literal ''VIRITYS 1/3'') 15 2,
     tf (Literal ''PANEELI 1: JaNNITE'') 10 15,
     tf (Literal ''PANEELI 1: VIRTA'') 10 28,
     tf (Literal ''PANEELI 2: JaNNITE'') 10 41,
     tf (Literal ''PANEELI 2: VIRTA'') 10 54,
     tf UPDATABLE_DATA 5 15,
     tf UPDATABLE_DATA 5 28,
     tf UPDATABLE_DATA 5 41,
     tf UPDATABLE_DATA 5 54]"

definition MENU_2_FIELDS :: "text_ptr T_TextField list" where
  "MENU_2_FIELDS =
    [tf (Literal ''VIRITYS 2/3'') 15 2,
     tf (Literal ''PANEELI 3: JaNNITE'') 10 15,
     tf (Literal ''PANEELI 3: VIRTA'') 10 28,
     tf (Literal ''PANEELI 4: JaNNITE'') 10 41,
     tf (Literal ''PANEELI 4: VIRTA'') 10 54,
     tf UPDATABLE_DATA 5 15,
     tf UPDATABLE_DATA 5 28,
     tf UPDATABLE_DATA 5 41,
     tf UPDATABLE_DATA 5 54]"

definition MENU_3_FIELDS :: "text_ptr T_TextField list" where
  "MENU_3_FIELDS =
    [tf (Literal ''VIRITYS 3/3'') 15 2,
     tf (Literal ''AKKU: JaNNITE'') 10 15,
     tf (Literal ''AKKU: VIRTA'') 10 28,
     tf (Literal ''TALLENNA'') 10 41,
     tf (Literal ''PERUUTA'') 10 54,
     tf UPDATABLE_DATA 5 15,
     tf UPDATABLE_DATA 5 28,
     tf UPDATABLE_DATA 5 41,
     tf UPDATABLE_DATA 5 54]"

definition CALIBRATION_MENU_FIELDS :: "text_ptr T_TextField list" where
  "CALIBRATION_MENU_FIELDS =
    [tf UPDATABLE_DATA 40 2,
     tf UPDATABLE_DATA 90 2,
     tf (Literal ''ASETA'') 15 15,
     tf UPDATABLE_DATA 50 15,
     tf UPDATABLE_DATA 95 15,
     tf UPDATABLE_DATA 40 28,
     tf UPDATABLE_DATA 7 41,
     tf (Literal ''TAKAISIN'') 13 41,
     tf UPDATABLE_DATA 60 41,
     tf (Literal ''OK'') 84 41,
     tf (Literal ''MITTAUS'') 19 54,
     tf UPDATABLE_DATA 67 54]"

definition MENU_VIEWS :: "T_MenuView list" where
  "MENU_VIEWS =
    [\<lparr>textFields = PANEL_VIEW_FIELDS, textFieldCount = 15\<rparr>,
     \<lparr>textFields = BATTERY_VIEW_FIELDS, textFieldCount = 5\<rparr>,
     \<lparr>textFields = MENU_1_FIELDS, textFieldCount = 9\<rparr>,
     \<lparr>textFields = MENU_2_FIELDS, textFieldCount = 9\<rparr>,
     \<lparr>textFields = MENU_3_FIELDS, textFieldCount = 9\<rparr>,
     \<lparr>textFields = CALIBRATION_MENU_FIELDS, textFieldCount = 12\<rparr>,
     \<lparr>textFields = CALIBRATION_MENU_FIELDS, textFieldCount = 12\<rparr>]"

text \<open>
  \<open>T_MenuSystem\<close>. The member \<open>views\<close> is a pointer to constant data that \<open>main\<close> sets
  to \<open>MENU_VIEWS\<close> and nothing changes; the model reads \<open>MENU_VIEWS\<close> directly.
\<close>

record T_MenuSystem =
  menuState :: E_MenuStates
  currentSelection :: nat
  previousMenu :: E_MenuStates
  updatableCharTables :: "char list list"
  currentTextFields :: "text_ptr T_TextField list"

text \<open>
  The initializer of \<open>main\<close>: \<open>{ NO_MENU, 0, NO_MENU, MENU_VIEWS, 0, 0 }\<close>, the
  remaining members zeroed.
\<close>

definition menu_init :: T_MenuSystem where
  "menu_init =
    \<lparr>menuState = NO_MENU, currentSelection = 0, previousMenu = NO_MENU,
     updatableCharTables = replicate 8 (replicate 8 NUL),
     currentTextFields = replicate 15 (tf UPDATABLE_DATA 0 0)\<rparr>"

section \<open>Menu.c\<close>

subsection \<open>Menu_ChangeView\<close>

text \<open>
  The loop body for the indices \<open>is\<close> still to run; \<open>j\<close> counts the updatable fields
  bound so far.
\<close>

fun Menu_ChangeView_loop ::
  "T_MenuView \<Rightarrow> nat list \<Rightarrow> nat \<Rightarrow> text_ptr T_TextField list \<Rightarrow> text_ptr T_TextField list option"
where
  "Menu_ChangeView_loop v [] j cur = Some cur"
| "Menu_ChangeView_loop v (i # is) j cur =
     (if i < length (textFields v) \<and> i < length cur then
        (let f = textFields v ! i in
         if pText f = UPDATABLE_DATA
         then Menu_ChangeView_loop v is (j + 1) (cur[i := f\<lparr>pText := CharTable j\<rparr>])
         else Menu_ChangeView_loop v is j (cur[i := f]))
      else None)"

definition Menu_ChangeView :: "T_MenuSystem \<Rightarrow> T_MenuSystem option" where
  "Menu_ChangeView m =
     (if state_index (menuState m) < length MENU_VIEWS then
        do {
          let v = MENU_VIEWS ! state_index (menuState m);
          cur \<leftarrow> Menu_ChangeView_loop v [0..<textFieldCount v] 0 (currentTextFields m);
          Some (m\<lparr>currentTextFields := cur\<rparr>)
        }
      else None)"

subsection \<open>Menu_PrimaryAction, Menu_SecondaryAction, Menu_HandleButtonState\<close>

text \<open>\<open>pMenu->menuState++\<close> on the enumeration.\<close>

fun next_state :: "E_MenuStates \<Rightarrow> E_MenuStates" where
  "next_state PANEL_VIEW = BATTERY_VIEW"
| "next_state BATTERY_VIEW = MENU_VIEW_1"
| "next_state MENU_VIEW_1 = MENU_VIEW_2"
| "next_state MENU_VIEW_2 = MENU_VIEW_3"
| "next_state MENU_VIEW_3 = CALIBRATION_VIEW_1"
| "next_state CALIBRATION_VIEW_1 = CALIBRATION_VIEW_2"
| "next_state CALIBRATION_VIEW_2 = NO_MENU"
| "next_state NO_MENU = NO_MENU"

definition Menu_PrimaryAction :: "T_MenuSystem \<Rightarrow> (nat \<times> T_MenuSystem) option" where
  "Menu_PrimaryAction m =
     do {
       m' \<leftarrow>
         (case menuState m of
            PANEL_VIEW \<Rightarrow> Menu_ChangeView (m\<lparr>menuState := BATTERY_VIEW\<rparr>)
          | BATTERY_VIEW \<Rightarrow> Menu_ChangeView (m\<lparr>menuState := PANEL_VIEW\<rparr>)
          | MENU_VIEW_1 \<Rightarrow>
              (let m1 = m\<lparr>currentSelection := (currentSelection m + 1) mod 256\<rparr> in
               if currentSelection m1 > 3
               then Menu_ChangeView
                      (m1\<lparr>menuState := next_state (menuState m1), currentSelection := 0\<rparr>)
               else Some m1)
          | MENU_VIEW_2 \<Rightarrow>
              (let m1 = m\<lparr>currentSelection := (currentSelection m + 1) mod 256\<rparr> in
               if currentSelection m1 > 3
               then Menu_ChangeView
                      (m1\<lparr>menuState := next_state (menuState m1), currentSelection := 0\<rparr>)
               else Some m1)
          | MENU_VIEW_3 \<Rightarrow>
              (let m1 = m\<lparr>currentSelection := (currentSelection m + 1) mod 256\<rparr> in
               if currentSelection m1 > 3
               then Menu_ChangeView (m1\<lparr>menuState := MENU_VIEW_1, currentSelection := 0\<rparr>)
               else Some m1)
          | CALIBRATION_VIEW_1 \<Rightarrow>
              (let m1 = m\<lparr>currentSelection := (currentSelection m + 1) mod 256\<rparr> in
               if currentSelection m1 > 1 then Some (m1\<lparr>currentSelection := 0\<rparr>) else Some m1)
          | CALIBRATION_VIEW_2 \<Rightarrow>
              (let m1 = m\<lparr>currentSelection := (currentSelection m + 1) mod 256\<rparr> in
               if currentSelection m1 > 1 then Some (m1\<lparr>currentSelection := 0\<rparr>) else Some m1)
          | NO_MENU \<Rightarrow> Some m);
       Some (MENU_NO_ACTION, m')
     }"

text \<open>
  The task number of a menu view: the arithmetic is done in \<open>int\<close> and stored
  in a \<open>uint8_t\<close>.
\<close>

definition menu_task :: "T_MenuSystem \<Rightarrow> nat" where
  "menu_task m =
     nat (((int (state_index (menuState m)) - 2) * 4 + int (currentSelection m)) mod 256)"

definition Menu_SecondaryAction_menu :: "T_MenuSystem \<Rightarrow> nat \<times> T_MenuSystem" where
  "Menu_SecondaryAction_menu m =
     (let result = menu_task m;
          m1 = m\<lparr>currentSelection := 0\<rparr>
      in if result = 10 \<or> result = 11
         then (result, m1\<lparr>menuState := PANEL_VIEW\<rparr>)
         else (result, m1\<lparr>menuState := CALIBRATION_VIEW_1\<rparr>))"

definition Menu_SecondaryAction :: "T_MenuSystem \<Rightarrow> (nat \<times> T_MenuSystem) option" where
  "Menu_SecondaryAction m0 =
     (let m = m0\<lparr>previousMenu := menuState m0\<rparr>;
          (result, m') =
            (case menuState m of
               PANEL_VIEW \<Rightarrow> (MENU_NO_ACTION, m\<lparr>menuState := MENU_VIEW_1, currentSelection := 0\<rparr>)
             | BATTERY_VIEW \<Rightarrow> (MENU_NO_ACTION, m\<lparr>menuState := MENU_VIEW_1, currentSelection := 0\<rparr>)
             | MENU_VIEW_1 \<Rightarrow> Menu_SecondaryAction_menu m
             | MENU_VIEW_2 \<Rightarrow> Menu_SecondaryAction_menu m
             | MENU_VIEW_3 \<Rightarrow> Menu_SecondaryAction_menu m
             | CALIBRATION_VIEW_1 \<Rightarrow>
                 (if 0 = currentSelection m then (MENU_NO_ACTION, m\<lparr>menuState := MENU_VIEW_1\<rparr>)
                  else (MENU_MEASURE_1, m\<lparr>menuState := CALIBRATION_VIEW_2\<rparr>))
             | CALIBRATION_VIEW_2 \<Rightarrow>
                 (if 0 = currentSelection m then (MENU_NO_ACTION, m\<lparr>menuState := CALIBRATION_VIEW_1\<rparr>)
                  else (MENU_MEASURE_2, m\<lparr>menuState := MENU_VIEW_1\<rparr>))
             | NO_MENU \<Rightarrow> (MENU_NO_ACTION, m))
      in do { m'' \<leftarrow> Menu_ChangeView m'; Some (result, m'') })"

definition Menu_HandleButtonState ::
  "T_MenuSystem \<Rightarrow> E_ButtonClicks \<Rightarrow> (nat \<times> T_MenuSystem) option" where
  "Menu_HandleButtonState m buttonState =
     (case buttonState of
        SHORT_CLICK \<Rightarrow> Menu_PrimaryAction m
      | LONG_CLICK \<Rightarrow> Menu_SecondaryAction m
      | NO_CLICK \<Rightarrow> Some (MENU_NO_ACTION, m))"

subsection \<open>Menu_CharArrayToTable\<close>

fun Menu_CharArrayToTable_loop :: "string \<Rightarrow> nat \<Rightarrow> char list \<Rightarrow> char list option" where
  "Menu_CharArrayToTable_loop [] i table = store table (int i) NUL"
| "Menu_CharArrayToTable_loop (c # cs) i table =
     (if c = NUL then store table (int i) NUL
      else do { t \<leftarrow> store table (int i) c; Menu_CharArrayToTable_loop cs (i + 1) t })"

definition Menu_CharArrayToTable :: "string \<Rightarrow> char list \<Rightarrow> char list option" where
  "Menu_CharArrayToTable array table = Menu_CharArrayToTable_loop array 0 table"

subsection \<open>Menu_FloatToCharArray\<close>

text \<open>
  \<open>(unsigned int)((*value) * 100)\<close>: the \<open>int\<close> 100 is converted to \<open>float\<close>, the
  product is a \<open>float\<close>, and the conversion truncates it towards zero. C defines the
  conversion when the truncated value is in \<open>0 .. 65535\<close>; outside that range the model wraps.
\<close>

definition trunc :: "real \<Rightarrow> int" where
  "trunc r = (if r < 0 then - \<lfloor>- r\<rfloor> else \<lfloor>r\<rfloor>)"

definition float_to_unsigned :: "float \<Rightarrow> nat" where
  "float_to_unsigned v = nat (trunc v mod 65536)"

text \<open>\<open>(newValue % 10) + '0'\<close>\<close>

definition digit_char :: "nat \<Rightarrow> char" where
  "digit_char n = char_of (n mod 10 + 48)"

text \<open>\<open>while(newValue > 0) { charArray[i] = (newValue % 10) + '0'; newValue /= 10; i--; }\<close>\<close>

function Menu_FloatToCharArray_digits :: "nat \<Rightarrow> int \<Rightarrow> char list \<Rightarrow> (int \<times> char list) option" where
  "Menu_FloatToCharArray_digits newValue i charArray =
     (if newValue > 0 then
        do {
          a \<leftarrow> store charArray i (digit_char newValue);
          Menu_FloatToCharArray_digits (newValue div 10) (i - 1) a
        }
      else Some (i, charArray))"
  by pat_completeness auto
termination
  by (relation "measure (\<lambda>(n, i, a). n)") auto

text \<open>\<open>while(i >= 0) charArray[i--] = ' ';\<close>\<close>

function Menu_FloatToCharArray_spaces :: "int \<Rightarrow> char list \<Rightarrow> char list option" where
  "Menu_FloatToCharArray_spaces i charArray =
     (if i \<ge> 0 then
        do {
          a \<leftarrow> store charArray i (CHR '' '');
          Menu_FloatToCharArray_spaces (i - 1) a
        }
      else Some charArray)"
  by pat_completeness auto
termination
  by (relation "measure (\<lambda>(i, a). nat (i + 1))") auto

definition Menu_FloatToCharArray :: "char list \<Rightarrow> float \<Rightarrow> char list option" where
  "Menu_FloatToCharArray charArray v =
     do {
       let newValue = float_to_unsigned (float_mult v 100);
       a \<leftarrow> store charArray 5 (digit_char newValue);
       let newValue = newValue div 10;
       a \<leftarrow> store a 4 (digit_char newValue);
       let newValue = newValue div 10;
       a \<leftarrow> store a 3 (CHR '','');
       (i, a) \<leftarrow>
         (if 0 = newValue then do { a \<leftarrow> store a 2 (CHR ''0''); Some (1, a) }
          else Menu_FloatToCharArray_digits newValue 2 a);
       Menu_FloatToCharArray_spaces i a
     }"

subsection \<open>Menu_SetCalibrationView\<close>

text \<open>An operation on row \<open>k\<close> of \<open>updatableCharTables\<close>.\<close>

definition on_table ::
  "char list list \<Rightarrow> nat \<Rightarrow> (char list \<Rightarrow> char list option) \<Rightarrow> char list list option" where
  "on_table tabs k f =
     (if k < length tabs then do { t \<leftarrow> f (tabs ! k); Some (tabs[k := t]) } else None)"

definition Menu_SetCalibrationView :: "T_MenuSystem \<Rightarrow> T_CalibrationInfo \<Rightarrow> T_MenuSystem option" where
  "Menu_SetCalibrationView m pCalibInfo =
     do {
       tabs \<leftarrow> on_table (updatableCharTables m) 1 (Menu_CharArrayToTable ''       '');
       tabs \<leftarrow>
         (if measToCalibrate pCalibInfo > 7
          then on_table tabs 0 (Menu_CharArrayToTable ''  AKKU '')
          else do {
            tabs \<leftarrow> on_table tabs 0 (Menu_CharArrayToTable ''PANEELI'');
            on_table tabs 1
              (\<lambda>t. store t 0 (char_of ((measToCalibrate pCalibInfo + 2) div 2 + 48)))
          });
       let calibrationState = (if CALIBRATION_VIEW_2 = menuState m then 1 else 0 :: nat);
       let state = (if CALIBRATION_VIEW_2 = menuState m then ''2/2    '' else ''1/2    '');
       let is_voltage = (0 = measToCalibrate pCalibInfo mod 2);
       let quantity = (if is_voltage then ''JaNNITE'' else ''VIRTA'');
       let unit = (if is_voltage then CHR ''V'' else CHR ''A'');
       let calibUnit = (if is_voltage then 0 else 1 :: nat);
       tabs \<leftarrow> on_table tabs 2 (Menu_CharArrayToTable quantity);
       tabs \<leftarrow> on_table tabs 3 (Menu_CharArrayToTable state);
       tabs \<leftarrow> on_table tabs 4
         (\<lambda>t. Menu_FloatToCharArray t (CALIBRATION_POINTS ! calibUnit ! calibrationState));
       tabs \<leftarrow> on_table tabs 5 (\<lambda>t. store t 6 unit);
       tabs \<leftarrow> on_table tabs 7 (\<lambda>t. store t 6 unit);
       Some (m\<lparr>updatableCharTables := tabs\<rparr>)
     }"

subsection \<open>Menu_UpdateTextFields\<close>

text \<open>
  \<open>pMeasResults\<close> is a pointer to \<open>float\<close>: the model is given what each index reads.
\<close>

fun Menu_UpdateTextFields_panel ::
  "nat list \<Rightarrow> (nat \<Rightarrow> float) \<Rightarrow> char list list \<Rightarrow> char list list option" where
  "Menu_UpdateTextFields_panel [] pMeasResults tabs = Some tabs"
| "Menu_UpdateTextFields_panel (i # is) pMeasResults tabs =
     do {
       tabs \<leftarrow> on_table tabs i (\<lambda>t. Menu_FloatToCharArray t (pMeasResults i));
       tabs \<leftarrow> on_table tabs i (\<lambda>t. store t 6 (if 0 = i mod 2 then CHR ''V'' else CHR ''A''));
       Menu_UpdateTextFields_panel is pMeasResults tabs
     }"

fun Menu_UpdateTextFields_blank :: "nat list \<Rightarrow> char list list \<Rightarrow> char list list option" where
  "Menu_UpdateTextFields_blank [] tabs = Some tabs"
| "Menu_UpdateTextFields_blank (i # is) tabs =
     do {
       tabs \<leftarrow> on_table tabs i (Menu_CharArrayToTable ''       '');
       Menu_UpdateTextFields_blank is tabs
     }"

definition Menu_UpdateTextFields_menu :: "T_MenuSystem \<Rightarrow> char list list option" where
  "Menu_UpdateTextFields_menu m =
     do {
       tabs \<leftarrow> Menu_UpdateTextFields_blank [0..<4] (updatableCharTables m);
       on_table tabs (currentSelection m) (\<lambda>t. store t 0 (CHR ''>''))
     }"

definition Menu_UpdateTextFields_calibration ::
  "T_MenuSystem \<Rightarrow> (nat \<Rightarrow> float) \<Rightarrow> T_CalibrationInfo \<Rightarrow> char list list option" where
  "Menu_UpdateTextFields_calibration m pMeasResults pCalibInfo =
     do {
       tabs \<leftarrow>
         (if 0 = currentSelection m then
            do {
              tabs \<leftarrow> on_table (updatableCharTables m) 5 (Menu_CharArrayToTable ''>      '');
              on_table tabs 6 (Menu_CharArrayToTable ''<      '')
            }
          else
            do {
              tabs \<leftarrow> on_table (updatableCharTables m) 5 (Menu_CharArrayToTable ''       '');
              on_table tabs 6 (Menu_CharArrayToTable ''   >  <'')
            });
       on_table tabs 7
         (\<lambda>t. Menu_FloatToCharArray t (pMeasResults (measToCalibrate pCalibInfo)))
     }"

definition Menu_UpdateTextFields ::
  "T_MenuSystem \<Rightarrow> (nat \<Rightarrow> float) \<Rightarrow> T_CalibrationInfo \<Rightarrow> T_MenuSystem option" where
  "Menu_UpdateTextFields m0 pMeasResults pCalibInfo =
     do {
       m1 \<leftarrow> (if NO_MENU = menuState m0 then Menu_ChangeView (m0\<lparr>menuState := PANEL_VIEW\<rparr>)
              else Some m0);
       m \<leftarrow> (if (5 = state_index (menuState m1) \<or> 6 = state_index (menuState m1))
                \<and> menuState m1 \<noteq> previousMenu m1
             then Menu_SetCalibrationView m1 pCalibInfo else Some m1);
       tabs \<leftarrow>
         (case menuState m of
            PANEL_VIEW \<Rightarrow> Menu_UpdateTextFields_panel [0..<8] pMeasResults (updatableCharTables m)
          | BATTERY_VIEW \<Rightarrow>
              do {
                tabs \<leftarrow> on_table (updatableCharTables m) 0
                  (\<lambda>t. Menu_FloatToCharArray t (pMeasResults BATTERY_VOLTAGE));
                tabs \<leftarrow> on_table tabs 1
                  (\<lambda>t. Menu_FloatToCharArray t (pMeasResults BATTERY_CURRENT));
                tabs \<leftarrow> on_table tabs 0 (\<lambda>t. store t 6 (CHR ''V''));
                on_table tabs 1 (\<lambda>t. store t 6 (CHR ''A''))
              }
          | MENU_VIEW_1 \<Rightarrow> Menu_UpdateTextFields_menu m
          | MENU_VIEW_2 \<Rightarrow> Menu_UpdateTextFields_menu m
          | MENU_VIEW_3 \<Rightarrow> Menu_UpdateTextFields_menu m
          | CALIBRATION_VIEW_1 \<Rightarrow> Menu_UpdateTextFields_calibration m pMeasResults pCalibInfo
          | CALIBRATION_VIEW_2 \<Rightarrow> Menu_UpdateTextFields_calibration m pMeasResults pCalibInfo
          | NO_MENU \<Rightarrow> Some (updatableCharTables m));
       Some (m\<lparr>updatableCharTables := tabs\<rparr>)
     }"

subsection \<open>Menu_UpdateView\<close>

definition Menu_UpdateView ::
  "T_MenuSystem \<Rightarrow> E_ButtonClicks \<Rightarrow> (nat \<Rightarrow> float) \<Rightarrow> T_CalibrationInfo
    \<Rightarrow> (nat \<times> T_MenuSystem) option" where
  "Menu_UpdateView m buttonState pMeasResults pCalibInfo =
     do {
       (menuAction, m1) \<leftarrow> Menu_HandleButtonState m buttonState;
       m2 \<leftarrow> Menu_UpdateTextFields m1 pMeasResults pCalibInfo;
       Some (menuAction, m2)
     }"

section \<open>LCD.c\<close>

definition CHARWIDTH :: nat where
  "CHARWIDTH = 5"

text \<open>
  \<open>FONT_8P\<close>: five bytes per glyph, in the order A to Z, a-umlaut, o-umlaut, slash,
  0 to 9, colon, \<open>>\<close> and \<open><\<close>.
\<close>

definition FONT_8P :: "nat list" where
  "FONT_8P =
    [
     0x7E, 0x09, 0x09, 0x09, 0x7E,
     0x7F, 0x49, 0x49, 0x49, 0x36,
     0x3E, 0x41, 0x41, 0x41, 0x22,
     0x7F, 0x41, 0x41, 0x41, 0x3E,
     0x7F, 0x49, 0x49, 0x49, 0x41,
     0x7F, 0x09, 0x09, 0x09, 0x01,
     0x3E, 0x41, 0x49, 0x49, 0x7A,
     0x7F, 0x08, 0x08, 0x08, 0x7F,
     0x00, 0x41, 0x7F, 0x41, 0x00,
     0x20, 0x40, 0x41, 0x3F, 0x01,
     0x7F, 0x08, 0x14, 0x22, 0x41,
     0x7F, 0x40, 0x40, 0x40, 0x40,
     0x7F, 0x02, 0x0C, 0x02, 0x7F,
     0x7F, 0x04, 0x08, 0x10, 0x7F,
     0x3E, 0x41, 0x41, 0x41, 0x3E,
     0x7F, 0x09, 0x09, 0x09, 0x06,
     0x3E, 0x41, 0x51, 0x21, 0x5E,
     0x7F, 0x09, 0x19, 0x29, 0x46,
     0x46, 0x49, 0x49, 0x49, 0x31,
     0x01, 0x01, 0x7F, 0x01, 0x01,
     0x3F, 0x40, 0x40, 0x40, 0x3F,
     0x0F, 0x30, 0x40, 0x30, 0x0F,
     0x3F, 0x40, 0x38, 0x40, 0x3F,
     0x63, 0x14, 0x08, 0x14, 0x63,
     0x07, 0x08, 0x70, 0x08, 0x07,
     0x61, 0x51, 0x49, 0x45, 0x43,
     0x20, 0x55, 0x54, 0x55, 0x78,
     0x38, 0x45, 0x44, 0x45, 0x38,
     0x00, 0x60, 0x1C, 0x03, 0x00,
     0x3E, 0x51, 0x49, 0x45, 0x3E,
     0x00, 0x42, 0x7F, 0x40, 0x00,
     0x42, 0x61, 0x51, 0x49, 0x46,
     0x21, 0x41, 0x45, 0x4B, 0x31,
     0x18, 0x14, 0x12, 0x7F, 0x10,
     0x27, 0x45, 0x45, 0x45, 0x39,
     0x3C, 0x4A, 0x49, 0x49, 0x30,
     0x01, 0x71, 0x09, 0x05, 0x03,
     0x36, 0x49, 0x49, 0x49, 0x36,
     0x06, 0x49, 0x49, 0x29, 0x1E,
     0x00, 0x24, 0x00, 0x00, 0x00,
     0x00, 0x22, 0x14, 0x08, 0x00,
     0x00, 0x08, 0x14, 0x22, 0x00
    ]"

text \<open>\<open>msgBuffer[i] |= v\<close> on the 128-byte transfer buffer.\<close>

definition or_into :: "8 word list \<Rightarrow> nat \<Rightarrow> 8 word \<Rightarrow> 8 word list option" where
  "or_into msgBuffer i v =
     (if i < length msgBuffer then Some (msgBuffer[i := (msgBuffer ! i) OR v]) else None)"

text \<open>
  Which way a text field is moved on page \<open>currentRow\<close>: 1 when its top pixels are on
  the page, 2 when the second test of the source holds, 0 when it is not drawn.
  The comparisons are made in \<open>int\<close>.
\<close>

definition LCD_direction :: "nat \<Rightarrow> nat \<Rightarrow> nat \<Rightarrow> nat" where
  "LCD_direction y y_end currentRow =
     (if y \<ge> currentRow * 8 \<and> y \<le> (currentRow + 1) * 8 - 1 then 1
      else if y_end + 8 \<ge> currentRow * 8 \<and> y_end \<le> (currentRow + 1) * 8 - 1 then 2
      else 0)"

text \<open>
  The byte that is or-ed into the buffer for the font byte \<open>v\<close>: \<open>v << (y - currentRow*8)\<close>
  for direction 1 and \<open>v >> (8 - (y_end - currentRow*8))\<close> otherwise, computed on integers
  and stored in a \<open>char\<close>. Where the second test of the direction holds, the count of
  the right shift is between 1 and 16; a count of 8 or more leaves no bit of a byte.
\<close>

definition LCD_shift :: "nat \<Rightarrow> nat \<Rightarrow> nat \<Rightarrow> nat \<Rightarrow> nat \<Rightarrow> 8 word" where
  "LCD_shift direction y y_end currentRow v =
     (if 1 = direction then of_nat (push_bit (nat (int y - int (currentRow * 8))) v)
      else of_nat (drop_bit (nat (8 - (int y_end - int (currentRow * 8)))) v))"

text \<open>The loop over \<open>byteOfChar\<close> that draws one glyph.\<close>

fun LCD_glyph ::
  "nat list \<Rightarrow> (nat \<Rightarrow> 8 word) \<Rightarrow> nat \<Rightarrow> nat \<Rightarrow> 8 word list \<Rightarrow> 8 word list option" where
  "LCD_glyph [] sh charPosition bufferPosition msgBuffer = Some msgBuffer"
| "LCD_glyph (byteOfChar # rest) sh charPosition bufferPosition msgBuffer =
     (if charPosition + byteOfChar < length FONT_8P then
        do {
          b \<leftarrow> or_into msgBuffer (bufferPosition + byteOfChar)
                 (sh (FONT_8P ! (charPosition + byteOfChar)));
          LCD_glyph rest sh charPosition bufferPosition b
        }
      else None)"

text \<open>
  The body of the loop over the characters of a text: the character's place in the font
  table is looked up by its ASCII number (255 when it has none), the comma and the full stop
  are drawn and the space is skipped in the same chain of tests, and a character with a place
  in the table is drawn from it. \<open>bufferPosition\<close> is a \<open>uint8_t\<close>.
\<close>

definition LCD_char ::
  "(nat \<Rightarrow> 8 word) \<Rightarrow> char \<Rightarrow> nat \<times> 8 word list \<Rightarrow> (nat \<times> 8 word list) option" where
  "LCD_char sh c st =
     (case st of (bufferPosition, msgBuffer) \<Rightarrow>
        do {
          let n = (of_char c :: nat);
          (charPosition, bufferPosition, msgBuffer) \<leftarrow>
            (if n \<ge> 65 \<and> n \<le> 90 then Some ((n - 65) * 5, bufferPosition, msgBuffer)
             else if n \<ge> 47 \<and> n \<le> 58 then Some ((n - 19) * 5, bufferPosition, msgBuffer)
             else if 97 = n then Some (130, bufferPosition, msgBuffer)
             else if 111 = n then Some (135, bufferPosition, msgBuffer)
             else if 62 = n then Some (200, bufferPosition, msgBuffer)
             else if 60 = n then Some (205, bufferPosition, msgBuffer)
             else if 44 = n \<or> 46 = n then
               do {
                 b \<leftarrow> or_into msgBuffer bufferPosition (sh 0xC0);
                 Some (255, (bufferPosition + 2) mod 256, b)
               }
             else if 32 = n then Some (255, (bufferPosition + CHARWIDTH + 1) mod 256, msgBuffer)
             else Some (255, bufferPosition, msgBuffer));
          if charPosition \<noteq> 255 then
            do {
              b \<leftarrow> LCD_glyph [0..<CHARWIDTH] sh charPosition bufferPosition msgBuffer;
              Some ((bufferPosition + 6) mod 256, b)
            }
          else Some (bufferPosition, msgBuffer)
        })"

text \<open>\<open>while(*charInText != '\0')\<close>\<close>

fun LCD_text ::
  "(nat \<Rightarrow> 8 word) \<Rightarrow> string \<Rightarrow> nat \<times> 8 word list \<Rightarrow> (nat \<times> 8 word list) option" where
  "LCD_text sh [] st = Some st"
| "LCD_text sh (c # cs) st =
     (if c = NUL then Some st else do { st' \<leftarrow> LCD_char sh c st; LCD_text sh cs st' })"

text \<open>\<open>y_end[currentTextField] = pTextFields->y + 8\<close>, stored in a \<open>uint8_t\<close>.\<close>

definition y_end_of :: "string T_TextField \<Rightarrow> nat" where
  "y_end_of f = (y_pos f + 8) mod 256"

text \<open>The loop over the text fields for one page.\<close>

fun LCD_fields :: "nat \<Rightarrow> string T_TextField list \<Rightarrow> 8 word list \<Rightarrow> 8 word list option" where
  "LCD_fields currentRow [] msgBuffer = Some msgBuffer"
| "LCD_fields currentRow (f # fs) msgBuffer =
     (let direction = LCD_direction (y_pos f) (y_end_of f) currentRow in
      do {
        b \<leftarrow>
          (if direction \<noteq> 0 then
             do {
               st \<leftarrow> LCD_text (LCD_shift direction (y_pos f) (y_end_of f) currentRow) (pText f)
                       (x_pos f, msgBuffer);
               Some (snd st)
             }
           else Some msgBuffer);
        LCD_fields currentRow fs b
      })"

text \<open>
  One pass of the loop over the pages: the buffer is cleared, the text fields are drawn
  into it, and the result is the line handed to \<open>LCD_SendData\<close>.
\<close>

definition LCD_page :: "nat \<Rightarrow> string T_TextField list \<Rightarrow> 8 word list option" where
  "LCD_page currentRow pTextFields = LCD_fields currentRow pTextFields (replicate 128 0)"

text \<open>The eight lines of one screen update. \<open>y_end\<close> has room for 15 text fields.\<close>

fun LCD_pages :: "nat list \<Rightarrow> string T_TextField list \<Rightarrow> 8 word list list option" where
  "LCD_pages [] pTextFields = Some []"
| "LCD_pages (currentRow # rows) pTextFields =
     do {
       line \<leftarrow> LCD_page currentRow pTextFields;
       rest \<leftarrow> LCD_pages rows pTextFields;
       Some (line # rest)
     }"

definition LCD_UpdateScreen :: "string T_TextField list \<Rightarrow> nat \<Rightarrow> 8 word list list option" where
  "LCD_UpdateScreen pTextFields fieldCount =
     (if fieldCount \<le> 15 \<and> fieldCount \<le> length pTextFields
      then LCD_pages [0..<8] (take fieldCount pTextFields)
      else None)"

section \<open>The main loop\<close>

text \<open>
  \<open>main\<close> calls \<open>Menu_UpdateView\<close> once per cycle, with the button event, the
  measurements and the calibration information of that cycle. \<open>Menu_run\<close> makes the calls
  for a list of such inputs and collects the returned tasks.
\<close>

type_synonym cycle_input = "E_ButtonClicks \<times> (nat \<Rightarrow> float) \<times> T_CalibrationInfo"

fun Menu_run :: "T_MenuSystem \<Rightarrow> cycle_input list \<Rightarrow> (nat list \<times> T_MenuSystem) option" where
  "Menu_run m [] = Some ([], m)"
| "Menu_run m ((buttonClick, pMeasResults, pCalibInfo) # rest) =
     do {
       (menuAction, m1) \<leftarrow> Menu_UpdateView m buttonClick pMeasResults pCalibInfo;
       (actions, m2) \<leftarrow> Menu_run m1 rest;
       Some (menuAction # actions, m2)
     }"

text \<open>The same measurements and calibration information in every cycle.\<close>

definition with_inputs ::
  "(nat \<Rightarrow> float) \<Rightarrow> T_CalibrationInfo \<Rightarrow> E_ButtonClicks list \<Rightarrow> cycle_input list" where
  "with_inputs pMeasResults pCalibInfo clicks = map (\<lambda>b. (b, pMeasResults, pCalibInfo)) clicks"

section \<open>Notions used in the statements and proofs\<close>

text \<open>A computation returns, and its result has a property.\<close>

definition succeeds :: "('a \<Rightarrow> bool) \<Rightarrow> 'a option \<Rightarrow> bool" where
  "succeeds P r = (case r of None \<Rightarrow> False | Some a \<Rightarrow> P a)"

text \<open>
  The three characters that \<open>Menu_FloatToCharArray\<close> writes before the comma for the integer
  part \<open>k < 1000\<close> of a value.
\<close>

definition int_part_text :: "nat \<Rightarrow> string" where
  "int_part_text k =
     (if k = 0 then [CHR '' '', CHR '' '', CHR ''0'']
      else if k < 10 then [CHR '' '', CHR '' '', digit_char k]
      else if k < 100 then [CHR '' '', digit_char (k div 10), digit_char k]
      else [digit_char (k div 100), digit_char (k div 10), digit_char k])"

text \<open>
  The arrays of a \<open>T_MenuSystem\<close> have their declared sizes: eight char tables of eight
  bytes and fifteen text fields. An operation on a char table is well-behaved when it
  returns an eight-byte table for every eight-byte table.
\<close>

definition tables_ok :: "char list list \<Rightarrow> bool" where
  "tables_ok tabs = (length tabs = 8 \<and> list_all (\<lambda>t. length t = 8) tabs)"

definition menu_ok :: "T_MenuSystem \<Rightarrow> bool" where
  "menu_ok m = (tables_ok (updatableCharTables m) \<and> length (currentTextFields m) = 15)"

definition row_op_ok :: "(char list \<Rightarrow> char list option) \<Rightarrow> bool" where
  "row_op_ok f = (\<forall>t. length t = 8 \<longrightarrow> succeeds (\<lambda>t'. length t' = 8) (f t))"

text \<open>
  The control part of the menu state: the view, the selection and the previous view. The
  functions \<open>primary_ctrl\<close>, \<open>secondary_ctrl\<close>, \<open>button_ctrl\<close> and \<open>update_ctrl\<close> give the
  task and the next control part for a button event; the lemmas \<open>PrimaryAction_ctrl\<close>,
  \<open>SecondaryAction_ctrl\<close>, \<open>HandleButtonState_ctrl\<close> and \<open>UpdateView_ctrl\<close> below show that
  \<open>Menu_PrimaryAction\<close>, \<open>Menu_SecondaryAction\<close>, \<open>Menu_HandleButtonState\<close> and
  \<open>Menu_UpdateView\<close> return and compute exactly these.
\<close>

definition ctrl :: "T_MenuSystem \<Rightarrow> E_MenuStates \<times> nat \<times> E_MenuStates" where
  "ctrl m = (menuState m, currentSelection m, previousMenu m)"

type_synonym menu_ctrl = "E_MenuStates \<times> nat \<times> E_MenuStates"

fun primary_ctrl :: "menu_ctrl \<Rightarrow> menu_ctrl" where
  "primary_ctrl (PANEL_VIEW, sel, prev) = (BATTERY_VIEW, sel, prev)"
| "primary_ctrl (BATTERY_VIEW, sel, prev) = (PANEL_VIEW, sel, prev)"
| "primary_ctrl (MENU_VIEW_1, sel, prev) =
     (if (sel + 1) mod 256 > 3 then (MENU_VIEW_2, 0, prev) else (MENU_VIEW_1, (sel + 1) mod 256, prev))"
| "primary_ctrl (MENU_VIEW_2, sel, prev) =
     (if (sel + 1) mod 256 > 3 then (MENU_VIEW_3, 0, prev) else (MENU_VIEW_2, (sel + 1) mod 256, prev))"
| "primary_ctrl (MENU_VIEW_3, sel, prev) =
     (if (sel + 1) mod 256 > 3 then (MENU_VIEW_1, 0, prev) else (MENU_VIEW_3, (sel + 1) mod 256, prev))"
| "primary_ctrl (CALIBRATION_VIEW_1, sel, prev) =
     (CALIBRATION_VIEW_1, if (sel + 1) mod 256 > 1 then 0 else (sel + 1) mod 256, prev)"
| "primary_ctrl (CALIBRATION_VIEW_2, sel, prev) =
     (CALIBRATION_VIEW_2, if (sel + 1) mod 256 > 1 then 0 else (sel + 1) mod 256, prev)"
| "primary_ctrl (NO_MENU, sel, prev) = (NO_MENU, sel, prev)"

fun secondary_menu_ctrl :: "nat \<Rightarrow> nat \<Rightarrow> E_MenuStates \<Rightarrow> nat \<times> menu_ctrl" where
  "secondary_menu_ctrl page sel s =
     (let task = (page * 4 + sel) mod 256
      in (task, if task = 10 \<or> task = 11 then PANEL_VIEW else CALIBRATION_VIEW_1, 0, s))"

fun secondary_ctrl :: "menu_ctrl \<Rightarrow> nat \<times> menu_ctrl" where
  "secondary_ctrl (PANEL_VIEW, sel, prev) = (MENU_NO_ACTION, MENU_VIEW_1, 0, PANEL_VIEW)"
| "secondary_ctrl (BATTERY_VIEW, sel, prev) = (MENU_NO_ACTION, MENU_VIEW_1, 0, BATTERY_VIEW)"
| "secondary_ctrl (MENU_VIEW_1, sel, prev) = secondary_menu_ctrl 0 sel MENU_VIEW_1"
| "secondary_ctrl (MENU_VIEW_2, sel, prev) = secondary_menu_ctrl 1 sel MENU_VIEW_2"
| "secondary_ctrl (MENU_VIEW_3, sel, prev) = secondary_menu_ctrl 2 sel MENU_VIEW_3"
| "secondary_ctrl (CALIBRATION_VIEW_1, sel, prev) =
     (if sel = 0 then (MENU_NO_ACTION, MENU_VIEW_1, sel, CALIBRATION_VIEW_1)
      else (MENU_MEASURE_1, CALIBRATION_VIEW_2, sel, CALIBRATION_VIEW_1))"
| "secondary_ctrl (CALIBRATION_VIEW_2, sel, prev) =
     (if sel = 0 then (MENU_NO_ACTION, CALIBRATION_VIEW_1, sel, CALIBRATION_VIEW_2)
      else (MENU_MEASURE_2, MENU_VIEW_1, sel, CALIBRATION_VIEW_2))"
| "secondary_ctrl (NO_MENU, sel, prev) = (MENU_NO_ACTION, NO_MENU, sel, NO_MENU)"

fun button_ctrl :: "E_ButtonClicks \<Rightarrow> menu_ctrl \<Rightarrow> nat \<times> menu_ctrl" where
  "button_ctrl NO_CLICK c = (MENU_NO_ACTION, c)"
| "button_ctrl SHORT_CLICK c = (MENU_NO_ACTION, primary_ctrl c)"
| "button_ctrl LONG_CLICK c = secondary_ctrl c"

fun leave_NO_MENU :: "menu_ctrl \<Rightarrow> menu_ctrl" where
  "leave_NO_MENU (s, sel, prev) = (if s = NO_MENU then PANEL_VIEW else s, sel, prev)"

definition update_ctrl :: "E_ButtonClicks \<Rightarrow> menu_ctrl \<Rightarrow> nat \<times> menu_ctrl" where
  "update_ctrl b c = (fst (button_ctrl b c), leave_NO_MENU (snd (button_ctrl b c)))"

text \<open>The bound on the selection that every call of \<open>Menu_UpdateView\<close> keeps.\<close>

definition selection_bounded :: "menu_ctrl \<Rightarrow> bool" where
  "selection_bounded c =
     (case c of (s, sel, prev) \<Rightarrow>
        (case s of
           CALIBRATION_VIEW_1 \<Rightarrow> sel \<le> 1
         | CALIBRATION_VIEW_2 \<Rightarrow> sel \<le> 1
         | _ \<Rightarrow> sel \<le> 3))"

text \<open>The tasks and the control part after a list of button events.\<close>

fun run_ctrl :: "menu_ctrl \<Rightarrow> E_ButtonClicks list \<Rightarrow> nat list \<times> menu_ctrl" where
  "run_ctrl c [] = ([], c)"
| "run_ctrl c (b # bs) =
     (fst (update_ctrl b c) # fst (run_ctrl (snd (update_ctrl b c)) bs),
      snd (run_ctrl (snd (update_ctrl b c)) bs))"

text \<open>Inputs for the examples: every measurement 0, calibration of channel 0.\<close>

definition no_signal :: "nat \<Rightarrow> float" where
  "no_signal i = 0"

definition calib_init :: T_CalibrationInfo where
  "calib_init = \<lparr>measToCalibrate = 0, calibResults = [0, 0]\<rparr>"

text \<open>The largest selection a view offers: four entries in a menu view, two in a calibration view.\<close>

fun selection_limit :: "E_MenuStates \<Rightarrow> nat" where
  "selection_limit CALIBRATION_VIEW_1 = 1"
| "selection_limit CALIBRATION_VIEW_2 = 1"
| "selection_limit s = 3"

text \<open>
  The reals that are floats: the finite single-precision values, which rounding to single
  precision leaves as they are.
\<close>

definition binary32 :: "real \<Rightarrow> bool" where
  "binary32 x \<longleftrightarrow> float_round x = x \<and> \<bar>x\<bar> < 2 powi 128"

text \<open>The six characters that \<open>Menu_FloatToCharArray\<close> writes for a value.\<close>

definition float_text :: "float \<Rightarrow> string" where
  "float_text v =
     int_part_text (float_to_unsigned (float_mult v 100) div 100)
     @ [CHR '','', digit_char (float_to_unsigned (float_mult v 100) div 10),
        digit_char (float_to_unsigned (float_mult v 100))]"

text \<open>The measurement of a char table is refreshed once for each value of a list.\<close>

fun refresh_slot :: "float list \<Rightarrow> char list \<Rightarrow> char list option" where
  "refresh_slot [] charArray = Some charArray"
| "refresh_slot (v # vs) charArray =
     do { a \<leftarrow> Menu_FloatToCharArray charArray v; refresh_slot vs a }"

text \<open>
  The characters with a place in the font table, and that place: \<open>A\<close> to \<open>Z\<close>, the
  range from \<open>/\<close> over the digits to \<open>:\<close>, \<open>a\<close>, \<open>o\<close>, \<open>>\<close> and \<open><\<close>.
\<close>

definition glyph_char :: "char \<Rightarrow> bool" where
  "glyph_char c =
     (let n = (of_char c :: nat)
      in (65 \<le> n \<and> n \<le> 90) \<or> (47 \<le> n \<and> n \<le> 58) \<or> n = 97 \<or> n = 111 \<or> n = 62 \<or> n = 60)"

definition glyph_position :: "char \<Rightarrow> nat" where
  "glyph_position c =
     (let n = (of_char c :: nat)
      in if 65 \<le> n \<and> n \<le> 90 then (n - 65) * 5
         else if 47 \<le> n \<and> n \<le> 58 then (n - 19) * 5
         else if n = 97 then 130
         else if n = 111 then 135
         else if n = 62 then 200
         else 205)"

text \<open>
  The characters for which the display module does something: those of the font table, the
  comma, the full stop and the space.
\<close>

definition drawn_char :: "char \<Rightarrow> bool" where
  "drawn_char c = (glyph_char c \<or> c = CHR '','' \<or> c = CHR ''.'' \<or> c = CHR '' '')"

text \<open>
  The columns the write position moves for a character, and the columns a character stores
  to, counted from the write position: five for a character of the font table, one for the
  comma and the full stop, none for the others.
\<close>

definition char_advance :: "char \<Rightarrow> nat" where
  "char_advance c =
     (if glyph_char c then 6
      else if c = CHR '','' \<or> c = CHR ''.'' then 2
      else if c = CHR '' '' then 6
      else 0)"

definition char_mark :: "char \<Rightarrow> nat" where
  "char_mark c =
     (if glyph_char c then 5
      else if c = CHR '','' \<or> c = CHR ''.'' then 1
      else 0)"

text \<open>
  The extent of a text: the number of columns from the start of the text to the last
  column it stores to, 0 when it stores nothing. A text field fits when its text stores
  nothing or its extent ends at column 128 or before.
\<close>

fun text_extent :: "string \<Rightarrow> nat" where
  "text_extent [] = 0"
| "text_extent (c # cs) =
     (if c = NUL then 0
      else max (char_mark c) (if text_extent cs = 0 then 0 else char_advance c + text_extent cs))"

definition field_fits :: "string T_TextField \<Rightarrow> bool" where
  "field_fits f = (text_extent (pText f) = 0 \<or> x_pos f + text_extent (pText f) \<le> 128)"

text \<open>Column \<open>j\<close> of the glyph of a character, as the font table has it.\<close>

definition glyph_column :: "char \<Rightarrow> nat \<Rightarrow> 8 word" where
  "glyph_column c j = of_nat (FONT_8P ! (glyph_position c + j))"

section \<open>Auxiliary lemmas\<close>

lemma succeeds_Some [simp]: "succeeds P (Some a) = P a"
  by (simp add: succeeds_def)

lemma succeeds_None [simp]: "\<not> succeeds P None"
  by (simp add: succeeds_def)

lemma succeeds_bind:
  "succeeds P r \<Longrightarrow> (\<And>a. P a \<Longrightarrow> succeeds Q (f a)) \<Longrightarrow> succeeds Q (r \<bind> f)"
  by (cases r) simp_all

lemma succeeds_weaken: "succeeds P r \<Longrightarrow> (\<And>a. P a \<Longrightarrow> Q a) \<Longrightarrow> succeeds Q r"
  by (cases r) simp_all

lemma succeedsD: "succeeds P r \<Longrightarrow> \<exists>a. r = Some a \<and> P a"
  by (cases r) simp_all

lemma store_Some: "0 \<le> i \<Longrightarrow> i < int (length a) \<Longrightarrow> store a i c = Some (a[nat i := c])"
  by (simp add: store_def)

lemma CharArrayToTable_loop_ok:
  "i + length s < length t \<Longrightarrow>
   succeeds (\<lambda>t'. length t' = length t) (Menu_CharArrayToTable_loop s i t)"
proof (induction s arbitrary: i t)
  case Nil
  then show ?case by (simp add: store_def)
next
  case (Cons c cs)
  have "succeeds (\<lambda>t'. length t' = length (t[i := c])) (Menu_CharArrayToTable_loop cs (i + 1) (t[i := c]))"
    by (rule Cons.IH) (use Cons.prems in simp)
  with Cons.prems show ?case by (simp add: store_def)
qed

lemma digits_zero: "Menu_FloatToCharArray_digits 0 i a = Some (i, a)"
  by simp

lemma digits_step:
  "0 < n \<Longrightarrow> 0 \<le> i \<Longrightarrow> i < int (length a) \<Longrightarrow>
   Menu_FloatToCharArray_digits n i a = Menu_FloatToCharArray_digits (n div 10) (i - 1) (a[nat i := digit_char n])"
  by (subst Menu_FloatToCharArray_digits.simps) (simp add: store_def)

lemma spaces_stop: "i < 0 \<Longrightarrow> Menu_FloatToCharArray_spaces i a = Some a"
  by (subst Menu_FloatToCharArray_spaces.simps) simp

lemma spaces_step:
  "0 \<le> i \<Longrightarrow> i < int (length a) \<Longrightarrow>
   Menu_FloatToCharArray_spaces i a = Menu_FloatToCharArray_spaces (i - 1) (a[nat i := CHR '' ''])"
  by (subst Menu_FloatToCharArray_spaces.simps) (simp add: store_def)

declare float_exponent_from.simps [simp del]

lemma float_exponent_from_ge: "e \<le> float_exponent_from e x"
proof (induction e x rule: float_exponent_from.induct)
  case (1 e x)
  then show ?case
    by (subst float_exponent_from.simps) (auto simp add: not_le)
qed

lemma float_exponent_from_le: "e \<le> 127 \<Longrightarrow> float_exponent_from e x \<le> 127"
proof (induction e x rule: float_exponent_from.induct)
  case (1 e x)
  then show ?case
    by (subst float_exponent_from.simps) auto
qed

lemma float_exponent_from_upper:
  "float_exponent_from e x < 127 \<Longrightarrow> \<bar>x\<bar> < 2 powi (float_exponent_from e x + 1)"
proof (induction e x rule: float_exponent_from.induct)
  case (1 e x)
  show ?case
  proof (cases "e < 127 \<and> 2 powi (e + 1) \<le> \<bar>x\<bar>")
    case True
    then have eq: "float_exponent_from e x = float_exponent_from (e + 1) x"
      by (subst float_exponent_from.simps) simp
    from 1 True show ?thesis by (simp add: eq)
  next
    case False
    then have eq: "float_exponent_from e x = e"
      by (subst float_exponent_from.simps) auto
    from 1(2) False show ?thesis by (auto simp add: eq not_le)
  qed
qed

lemma float_exponent_from_lower:
  "e < float_exponent_from e x \<Longrightarrow> 2 powi (float_exponent_from e x) \<le> \<bar>x\<bar>"
proof (induction e x rule: float_exponent_from.induct)
  case (1 e x)
  show ?case
  proof (cases "e < 127 \<and> 2 powi (e + 1) \<le> \<bar>x\<bar>")
    case True
    then have eq: "float_exponent_from e x = float_exponent_from (e + 1) x"
      by (subst float_exponent_from.simps) simp
    show ?thesis
    proof (cases "e + 1 < float_exponent_from (e + 1) x")
      case True
      with 1(1) \<open>e < 127 \<and> 2 powi (e + 1) \<le> \<bar>x\<bar>\<close> show ?thesis by (simp add: eq)
    next
      case False
      with float_exponent_from_ge [of "e + 1" x] have "float_exponent_from (e + 1) x = e + 1"
        by simp
      with True show ?thesis by (simp add: eq)
    qed
  next
    case False
    then have eq: "float_exponent_from e x = e"
      by (subst float_exponent_from.simps) auto
    from 1(2) show ?thesis by (simp add: eq)
  qed
qed

lemma float_exponent_range: "- 126 \<le> float_exponent x" "float_exponent x \<le> 127"
  using float_exponent_from_ge [of "- 126" x] float_exponent_from_le [of "- 126" x]
  by (simp_all add: float_exponent_def)

lemma float_exponent_upper: "float_exponent x < 127 \<Longrightarrow> \<bar>x\<bar> < 2 powi (float_exponent x + 1)"
  unfolding float_exponent_def by (rule float_exponent_from_upper)

lemma float_exponent_lower: "- 126 < float_exponent x \<Longrightarrow> 2 powi (float_exponent x) \<le> \<bar>x\<bar>"
  unfolding float_exponent_def by (rule float_exponent_from_lower)

lemma powi_less_cancel: "(2::real) powi a < 2 powi b \<Longrightarrow> a < b"
  using power_int_increasing [of b a "2::real"] by (cases "a < b") simp_all

lemma float_exponent_eq:
  assumes "- 126 \<le> e" "e \<le> 127" "e = - 126 \<or> 2 powi e \<le> \<bar>x\<bar>" "e = 127 \<or> \<bar>x\<bar> < 2 powi (e + 1)"
  shows "float_exponent x = e"
proof -
  define f where "f = float_exponent x"
  have r: "- 126 \<le> f" "f \<le> 127" using float_exponent_range [of x] by (simp_all add: f_def)
  have "f \<le> e"
  proof (cases "- 126 < f \<and> e < 127")
    case True
    then have "2 powi f \<le> \<bar>x\<bar>" "\<bar>x\<bar> < 2 powi (e + 1)"
      using float_exponent_lower [of x] assms(4) by (simp_all add: f_def)
    then have "(2::real) powi f < 2 powi (e + 1)" by linarith
    then show ?thesis using powi_less_cancel [of f "e + 1"] by simp
  next
    case False
    with r assms show ?thesis by auto
  qed
  moreover have "e \<le> f"
  proof (cases "- 126 < e \<and> f < 127")
    case True
    then have "2 powi e \<le> \<bar>x\<bar>" "\<bar>x\<bar> < 2 powi (f + 1)"
      using float_exponent_upper [of x] assms(3) by (simp_all add: f_def)
    then have "(2::real) powi e < 2 powi (f + 1)" by linarith
    then show ?thesis using powi_less_cancel [of e "f + 1"] by simp
  next
    case False
    with r assms show ?thesis by auto
  qed
  ultimately show ?thesis by (simp add: f_def)
qed


lemma round_half_even_le: "y \<le> of_int N \<Longrightarrow> round_half_even y \<le> N"
proof -
  assume y: "y \<le> of_int N"
  then have f: "\<lfloor>y\<rfloor> \<le> N" by (simp add: floor_le_iff)
  show ?thesis
  proof (cases "\<lfloor>y\<rfloor> = N")
    case True
    then have "y - of_int \<lfloor>y\<rfloor> \<le> 0" using y by simp
    then show ?thesis by (simp add: round_half_even_def True)
  next
    case False
    with f have "\<lfloor>y\<rfloor> + 1 \<le> N" by simp
    with f show ?thesis by (simp add: round_half_even_def)
  qed
qed

lemma round_half_even_less: "y < of_int N - 1 / 2 \<Longrightarrow> round_half_even y < N"
proof -
  assume y: "y < of_int N - 1 / 2"
  then have "y < of_int N" by simp
  then have f: "\<lfloor>y\<rfloor> < N" by (simp add: floor_less_iff)
  show ?thesis
  proof (cases "\<lfloor>y\<rfloor> + 1 = N")
    case True
    then have "of_int N = of_int \<lfloor>y\<rfloor> + (1::real)" by (metis of_int_add of_int_1)
    with y have "y - of_int \<lfloor>y\<rfloor> < 1 / 2" by simp
    with f show ?thesis by (simp add: round_half_even_def)
  next
    case False
    with f have "\<lfloor>y\<rfloor> + 1 < N" by simp
    with f show ?thesis by (simp add: round_half_even_def)
  qed
qed

lemma round_half_even_nonneg: "0 \<le> y \<Longrightarrow> 0 \<le> round_half_even y"
  by (simp add: round_half_even_def)

lemma round_half_even_of_int [simp]: "round_half_even (of_int k) = k"
  by (simp add: round_half_even_def)

lemma float_round_nonneg: "0 \<le> x \<Longrightarrow> 0 \<le> float_round x"
  by (simp add: float_round_def round_half_even_nonneg)


lemma float_round_le_binade:
  assumes "float_exponent x < 127"
  shows "float_round x \<le> 2 powi (float_exponent x + 1)"
proof -
  define f where "f = float_exponent x"
  have q: "(0::real) < 2 powi (f - 23)" by simp
  have "\<bar>x\<bar> < 2 powi (f + 1)"
    using float_exponent_upper [OF assms] by (simp add: f_def)
  then have "x \<le> 2 powi (f + 1)" by simp
  then have "x / 2 powi (f - 23) \<le> 2 powi (f + 1) / 2 powi (f - 23)"
    using q by (simp add: divide_right_mono)
  also have "2 powi (f + 1) / 2 powi (f - 23) = (2::real) powi 24"
    by (simp flip: power_int_diff)
  finally have "x / 2 powi (f - 23) \<le> of_int 16777216" by simp
  then have "round_half_even (x / 2 powi (f - 23)) \<le> 16777216"
    by (rule round_half_even_le)
  then have "(of_int (round_half_even (x / 2 powi (f - 23))) :: real) \<le> 16777216"
    by linarith
  then have "of_int (round_half_even (x / 2 powi (f - 23))) * 2 powi (f - 23)
      \<le> (16777216::real) * 2 powi (f - 23)"
    using q by (simp add: mult_right_mono)
  also have "(16777216::real) * 2 powi (f - 23) = 2 powi (f + 1)"
    using power_int_add [of "2::real" 24 "f - 23"] by (simp add: add.commute)
  finally show ?thesis by (simp add: float_round_def f_def)
qed

lemma float_exponent_le:
  assumes "\<bar>x\<bar> < 2 powi (k + 1)" "- 126 \<le> k"
  shows "float_exponent x \<le> k"
proof (cases "- 126 < float_exponent x")
  case True
  then have "2 powi (float_exponent x) \<le> \<bar>x\<bar>" by (rule float_exponent_lower)
  with assms(1) have "(2::real) powi (float_exponent x) < 2 powi (k + 1)" by linarith
  then show ?thesis using powi_less_cancel [of "float_exponent x" "k + 1"] by simp
next
  case False
  with assms(2) show ?thesis by simp
qed

lemma binary32_grid:
  assumes "binary32 v" "float_exponent v = e"
  shows "\<exists>k. v = of_int k * 2 powi (e - 23)"
  using assms unfolding binary32_def float_round_def by metis

lemma float_round_percent_less:
  assumes "binary32 v" "0 \<le> v" "v < 100"
  shows "float_round (v * 100) < 10000"
proof (cases "v * 100 < 8192")
  case True
  have "\<bar>v * 100\<bar> < 2 powi (12 + 1)"
    using True assms(2) by simp
  then have e: "float_exponent (v * 100) \<le> 12"
    by (rule float_exponent_le) simp
  then have "float_round (v * 100) \<le> 2 powi (float_exponent (v * 100) + 1)"
    by (intro float_round_le_binade) simp
  also have "\<dots> \<le> 2 powi 13"
    using e by (intro power_int_increasing) simp_all
  finally show ?thesis by simp
next
  case False
  then have x: "8192 \<le> v * 100" by simp
  have "float_exponent v = 6"
    using x assms(2,3) by (intro float_exponent_eq) simp_all
  from binary32_grid [OF assms(1) this]
  obtain k :: int where k: "v = of_int k * 2 powi (6 - 23)" by blast
  then have v: "v = of_int k / 131072" by simp
  with assms(3) have "(of_int k :: real) < of_int 13107200" by simp
  then have "k < 13107200" by (simp only: of_int_less_iff)
  then have "(of_int k :: real) \<le> 13107199" by linarith
  then have "v \<le> 13107199 / 131072" by (simp add: v)
  then have y: "v * 100 / 2 powi (13 - 23) < of_int 10240000 - 1 / 2"
    by simp
  have e: "float_exponent (v * 100) = 13"
    using x assms(3) by (intro float_exponent_eq) simp_all
  from y have "round_half_even (v * 100 / 2 powi (13 - 23)) < 10240000"
    by (rule round_half_even_less)
  then have "(of_int (round_half_even (v * 100 / 2 powi (13 - 23))) :: real) \<le> 10239999"
    by linarith
  then show ?thesis
    by (simp add: float_round_def e)
qed

lemma float_to_unsigned_less: "float_to_unsigned r < 65536"
  by (simp add: float_to_unsigned_def nat_less_iff)

lemma len8: "length a = 8 \<Longrightarrow> \<exists>a0 a1 a2 a3 a4 a5 a6 a7. a = [a0, a1, a2, a3, a4, a5, a6, a7]"
  by (auto simp add: length_Suc_conv eval_nat_numeral)

lemma FloatToCharArray_eq:
  assumes "length a = 8"
  shows "Menu_FloatToCharArray a v =
    Some (int_part_text (float_to_unsigned (float_mult v 100) div 100)
          @ [CHR '','', digit_char (float_to_unsigned (float_mult v 100) div 10), digit_char (float_to_unsigned (float_mult v 100))]
          @ drop 6 a)"
proof -
  define n where "n = float_to_unsigned (float_mult v 100)"
  define k where "k = n div 10 div 10"
  have k: "k < 1000" "k = n div 100"
    using float_to_unsigned_less [of "float_mult v 100"] by (simp_all add: n_def k_def div_mult2_eq)
  obtain a0 a1 a2 a3 a4 a5 a6 a7 where a: "a = [a0, a1, a2, a3, a4, a5, a6, a7]"
    using len8 [OF assms] by blast
  consider "k = 0" | "0 < k" "k < 10" | "10 \<le> k" "k < 100" | "100 \<le> k" "k < 1000"
    using k by linarith
  then have "Menu_FloatToCharArray a v =
    Some (int_part_text k @ [CHR '','', digit_char (n div 10), digit_char n] @ drop 6 a)"
  proof cases
    case 1
    then show ?thesis
      unfolding Menu_FloatToCharArray_def n_def [symmetric] Let_def
      by (simp add: a store_def k_def [symmetric] spaces_step spaces_stop int_part_text_def)
  next
    case 2
    then have "k div 10 = 0" by simp
    with 2 show ?thesis
      unfolding Menu_FloatToCharArray_def n_def [symmetric] Let_def
      by (simp add: a store_def k_def [symmetric] digits_step spaces_step spaces_stop int_part_text_def)
  next
    case 3
    then have "0 < k div 10" "k div 10 div 10 = 0" by simp_all
    with 3 show ?thesis
      unfolding Menu_FloatToCharArray_def n_def [symmetric] Let_def
      by (simp add: a store_def k_def [symmetric] digits_step spaces_step spaces_stop int_part_text_def)
  next
    case 4
    then have "0 < k div 10" "0 < k div 10 div 10" "k div 10 div 10 div 10 = 0" "k div 100 = k div 10 div 10"
      by (simp_all add: div_mult2_eq)
    with 4 show ?thesis
      unfolding Menu_FloatToCharArray_def n_def [symmetric] Let_def
      by (simp add: a store_def k_def [symmetric] digits_step spaces_step spaces_stop int_part_text_def)
  qed
  then show ?thesis by (simp add: n_def k)
qed

lemma row_op_store: "0 \<le> i \<Longrightarrow> i < 8 \<Longrightarrow> row_op_ok (\<lambda>t. store t i c)"
  by (simp add: row_op_ok_def store_def)

lemma row_op_CharArrayToTable: "length s \<le> 7 \<Longrightarrow> row_op_ok (Menu_CharArrayToTable s)"
  unfolding row_op_ok_def Menu_CharArrayToTable_def
proof (intro allI impI)
  fix t :: "char list"
  assume "length s \<le> 7" "length t = 8"
  then have "succeeds (\<lambda>t'. length t' = length t) (Menu_CharArrayToTable_loop s 0 t)"
    by (intro CharArrayToTable_loop_ok) simp
  then show "succeeds (\<lambda>t'. length t' = 8) (Menu_CharArrayToTable_loop s 0 t)"
    using \<open>length t = 8\<close> by simp
qed

lemma row_op_FloatToCharArray: "row_op_ok (\<lambda>t. Menu_FloatToCharArray t v)"
  by (simp add: row_op_ok_def FloatToCharArray_eq int_part_text_def)

lemma tables_ok_update:
  "tables_ok tabs \<Longrightarrow> length t = 8 \<Longrightarrow> tables_ok (tabs[k := t])"
  by (auto simp add: tables_ok_def list_all_iff dest: set_update_subset_insert [THEN subsetD])

lemma tables_ok_nth: "tables_ok tabs \<Longrightarrow> k < 8 \<Longrightarrow> length (tabs ! k) = 8"
  by (simp add: tables_ok_def list_all_length)

lemma on_table_ok:
  assumes "tables_ok tabs" "k < 8" "row_op_ok f"
  shows "succeeds tables_ok (on_table tabs k f)"
proof -
  have len: "length (tabs ! k) = 8" using assms by (simp add: tables_ok_nth)
  with assms(3) have "succeeds (\<lambda>t'. length t' = 8) (f (tabs ! k))"
    by (simp add: row_op_ok_def)
  then obtain t' where "f (tabs ! k) = Some t'" "length t' = 8"
    by (auto dest: succeedsD)
  with assms show ?thesis
    by (simp add: on_table_def tables_ok_update) (simp add: tables_ok_def)
qed

lemma on_table_bind:
  assumes "tables_ok tabs" "k < 8" "row_op_ok f"
    and "\<And>tabs'. tables_ok tabs' \<Longrightarrow> succeeds Q (g tabs')"
  shows "succeeds Q (on_table tabs k f \<bind> g)"
  using on_table_ok [OF assms(1-3)] assms(4) by (rule succeeds_bind)

lemma succeeds_if:
  "(c \<Longrightarrow> succeeds P a) \<Longrightarrow> (\<not> c \<Longrightarrow> succeeds P b) \<Longrightarrow> succeeds P (if c then a else b)"
  by simp

lemma bind_if:
  "(if c then a else b) \<bind> g = (if c then a \<bind> g else (b :: 'a option) \<bind> g)"
  by simp

lemmas row_ops = row_op_CharArrayToTable row_op_store row_op_FloatToCharArray

lemma SetCalibrationView_ok:
  assumes "menu_ok m"
  shows "succeeds (\<lambda>m'. menu_ok m' \<and> menuState m' = menuState m
      \<and> currentSelection m' = currentSelection m \<and> previousMenu m' = previousMenu m)
    (Menu_SetCalibrationView m cal)"
  using assms unfolding Menu_SetCalibrationView_def Let_def menu_ok_def bind_if Option.bind_assoc
  by (intro succeeds_if on_table_bind) (simp_all add: row_ops)

lemma ChangeView_loop_ok:
  "length cur = n \<Longrightarrow> list_all (\<lambda>i. i < length (textFields v) \<and> i < n) is \<Longrightarrow>
   succeeds (\<lambda>cur'. length cur' = n) (Menu_ChangeView_loop v is j cur)"
  by (induction "is" arbitrary: j cur) (simp_all add: Let_def)

lemma upt_all_less: "n \<le> k \<Longrightarrow> list_all (\<lambda>i. i < k) [0..<n]"
  by (simp add: list_all_iff)

lemma views_fit:
  "v \<in> set MENU_VIEWS \<Longrightarrow> textFieldCount v \<le> length (textFields v) \<and> textFieldCount v \<le> 15"
  by (auto simp add: MENU_VIEWS_def PANEL_VIEW_FIELDS_def BATTERY_VIEW_FIELDS_def MENU_1_FIELDS_def
      MENU_2_FIELDS_def MENU_3_FIELDS_def CALIBRATION_MENU_FIELDS_def)

lemma length_MENU_VIEWS: "length MENU_VIEWS = 7"
  by (simp add: MENU_VIEWS_def)

lemma state_index_less: "state_index s < 7 \<longleftrightarrow> s \<noteq> NO_MENU"
  by (cases s) simp_all

lemma ChangeView_ok:
  assumes "menu_ok m" "menuState m \<noteq> NO_MENU"
  shows "succeeds (\<lambda>m'. menu_ok m' \<and> ctrl m' = ctrl m) (Menu_ChangeView m)"
proof -
  define v where "v = MENU_VIEWS ! state_index (menuState m)"
  have idx: "state_index (menuState m) < length MENU_VIEWS"
    using assms(2) by (simp add: length_MENU_VIEWS state_index_less)
  then have "v \<in> set MENU_VIEWS" by (simp add: v_def)
  then have fit: "textFieldCount v \<le> length (textFields v)" "textFieldCount v \<le> 15"
    by (simp_all add: views_fit)
  have len: "length (currentTextFields m) = 15" using assms(1) by (simp add: menu_ok_def)
  have "list_all (\<lambda>i. i < length (textFields v) \<and> i < length (currentTextFields m))
          [0..<textFieldCount v]"
    using fit len by (simp add: list_all_iff)
  then have "succeeds (\<lambda>cur'. length cur' = length (currentTextFields m))
      (Menu_ChangeView_loop v [0..<textFieldCount v] 0 (currentTextFields m))"
    by (intro ChangeView_loop_ok) simp_all
  then obtain cur' where
    "Menu_ChangeView_loop v [0..<textFieldCount v] 0 (currentTextFields m) = Some cur'"
    "length cur' = 15"
    using len by (auto dest: succeedsD)
  with idx assms(1) show ?thesis
    by (simp add: Menu_ChangeView_def v_def [symmetric] menu_ok_def ctrl_def)
qed

lemma ChangeView_NO_MENU: "menuState m = NO_MENU \<Longrightarrow> Menu_ChangeView m = None"
  by (simp add: Menu_ChangeView_def length_MENU_VIEWS)

lemma panel_ok:
  "tables_ok tabs \<Longrightarrow> list_all (\<lambda>i. i < 8) is \<Longrightarrow>
   succeeds tables_ok (Menu_UpdateTextFields_panel is meas tabs)"
proof (induction "is" arbitrary: tabs)
  case Nil
  then show ?case by simp
next
  case (Cons i "is")
  then show ?case
    by (simp split del: if_split) (intro on_table_bind; simp add: row_ops)
qed

lemma blank_ok:
  "tables_ok tabs \<Longrightarrow> list_all (\<lambda>i. i < 8) is \<Longrightarrow>
   succeeds tables_ok (Menu_UpdateTextFields_blank is tabs)"
proof (induction "is" arbitrary: tabs)
  case Nil
  then show ?case by simp
next
  case (Cons i "is")
  then show ?case
    by simp (intro on_table_bind; simp add: row_ops)
qed

lemma menu_fields_ok:
  "menu_ok m \<Longrightarrow> currentSelection m < 8 \<Longrightarrow> succeeds tables_ok (Menu_UpdateTextFields_menu m)"
  unfolding Menu_UpdateTextFields_menu_def
  by (rule succeeds_bind [OF blank_ok]) (simp_all add: menu_ok_def list_all_iff on_table_ok row_ops)

lemma calibration_fields_ok:
  "menu_ok m \<Longrightarrow> succeeds tables_ok (Menu_UpdateTextFields_calibration m meas cal)"
  unfolding Menu_UpdateTextFields_calibration_def menu_ok_def bind_if Option.bind_assoc
  by (intro succeeds_if on_table_bind on_table_ok) (simp_all add: row_ops)

lemma UpdateTextFields_ok:
  assumes "menu_ok m" "currentSelection m < 8"
  shows "succeeds (\<lambda>m'. menu_ok m' \<and>
      ctrl m' = (if menuState m = NO_MENU then PANEL_VIEW else menuState m,
                 currentSelection m, previousMenu m))
    (Menu_UpdateTextFields m meas cal)"
proof -
  let ?s = "if menuState m = NO_MENU then PANEL_VIEW else menuState m"
  let ?P = "\<lambda>m'. menu_ok m' \<and> ctrl m' = (?s, currentSelection m, previousMenu m)"
  have 1: "succeeds ?P
    (if NO_MENU = menuState m then Menu_ChangeView (m\<lparr>menuState := PANEL_VIEW\<rparr>) else Some m)"
  proof (cases "menuState m = NO_MENU")
    case True
    have "succeeds (\<lambda>m'. menu_ok m' \<and> ctrl m' = ctrl (m\<lparr>menuState := PANEL_VIEW\<rparr>))
        (Menu_ChangeView (m\<lparr>menuState := PANEL_VIEW\<rparr>))"
      by (rule ChangeView_ok) (use assms in \<open>simp_all add: menu_ok_def\<close>)
    with True show ?thesis by (simp add: ctrl_def)
  next
    case False
    with assms show ?thesis by (auto simp add: ctrl_def)
  qed
  have 2: "succeeds ?P
    (if (5 = state_index (menuState m1) \<or> 6 = state_index (menuState m1))
          \<and> menuState m1 \<noteq> previousMenu m1
     then Menu_SetCalibrationView m1 cal else Some m1)" if "?P m1" for m1
  proof -
    have "succeeds (\<lambda>m'. menu_ok m' \<and> menuState m' = menuState m1
      \<and> currentSelection m' = currentSelection m1 \<and> previousMenu m' = previousMenu m1)
      (Menu_SetCalibrationView m1 cal)"
      using that by (intro SetCalibrationView_ok) simp
    then have "succeeds ?P (Menu_SetCalibrationView m1 cal)"
      using that by (auto simp add: ctrl_def elim!: succeeds_weaken)
    with that show ?thesis by (intro succeeds_if) simp_all
  qed
  have 3: "succeeds tables_ok
    (case menuState m2 of
       PANEL_VIEW \<Rightarrow> Menu_UpdateTextFields_panel [0..<8] meas (updatableCharTables m2)
     | BATTERY_VIEW \<Rightarrow>
         do {
           tabs \<leftarrow> on_table (updatableCharTables m2) 0
             (\<lambda>t. Menu_FloatToCharArray t (meas BATTERY_VOLTAGE));
           tabs \<leftarrow> on_table tabs 1
             (\<lambda>t. Menu_FloatToCharArray t (meas BATTERY_CURRENT));
           tabs \<leftarrow> on_table tabs 0 (\<lambda>t. store t 6 (CHR ''V''));
           on_table tabs 1 (\<lambda>t. store t 6 (CHR ''A''))
         }
     | MENU_VIEW_1 \<Rightarrow> Menu_UpdateTextFields_menu m2
     | MENU_VIEW_2 \<Rightarrow> Menu_UpdateTextFields_menu m2
     | MENU_VIEW_3 \<Rightarrow> Menu_UpdateTextFields_menu m2
     | CALIBRATION_VIEW_1 \<Rightarrow> Menu_UpdateTextFields_calibration m2 meas cal
     | CALIBRATION_VIEW_2 \<Rightarrow> Menu_UpdateTextFields_calibration m2 meas cal
     | NO_MENU \<Rightarrow> Some (updatableCharTables m2))" if "?P m2" for m2
  proof -
    have ok: "menu_ok m2" "tables_ok (updatableCharTables m2)" "currentSelection m2 < 8"
      using that assms(2) by (simp_all add: menu_ok_def ctrl_def)
    show ?thesis
    proof (cases "menuState m2")
      case PANEL_VIEW
      then show ?thesis using ok by (simp add: panel_ok list_all_iff)
    next
      case BATTERY_VIEW
      then show ?thesis using ok
        by simp (intro on_table_bind on_table_ok; simp add: row_ops)
    qed (use ok in \<open>simp_all add: menu_fields_ok calibration_fields_ok\<close>)
  qed
  show ?thesis
    unfolding Menu_UpdateTextFields_def
    apply (rule succeeds_bind [OF 1])
    apply (rule succeeds_bind [OF 2], assumption)
    apply (rule succeeds_bind [OF 3], assumption)
    apply (simp add: menu_ok_def ctrl_def)
    done
qed

lemma PrimaryAction_ctrl:
  assumes "menu_ok m"
  shows "succeeds (\<lambda>r. fst r = MENU_NO_ACTION \<and> menu_ok (snd r) \<and> ctrl (snd r) = primary_ctrl (ctrl m))
           (Menu_PrimaryAction m)"
proof -
  have cv: "succeeds (\<lambda>m'. menu_ok m' \<and> ctrl m' = ctrl m0) (Menu_ChangeView m0)"
    if "menu_ok m0" "menuState m0 \<noteq> NO_MENU" for m0
    using that by (rule ChangeView_ok)
  have ok: "menu_ok (m\<lparr>menuState := s, currentSelection := k\<rparr>)"
           "menu_ok (m\<lparr>currentSelection := k, menuState := s\<rparr>)"
           "menu_ok (m\<lparr>currentSelection := k, menuState := s, currentSelection := k'\<rparr>)"
           "menu_ok (m\<lparr>menuState := s\<rparr>)" "menu_ok (m\<lparr>currentSelection := k\<rparr>)" for s k k'
    using assms by (simp_all add: menu_ok_def)
  show ?thesis
    unfolding Menu_PrimaryAction_def
    by (cases "menuState m")
       (auto simp add: Let_def ctrl_def ok assms intro!: succeeds_bind [OF cv])
qed

lemma menu_task_eq:
  "2 \<le> state_index (menuState m) \<Longrightarrow>
   menu_task m = ((state_index (menuState m) - 2) * 4 + currentSelection m) mod 256"
  unfolding menu_task_def
  by (cases "menuState m") (simp_all add: nat_mod_distrib nat_add_distrib)

lemma SecondaryAction_menu_ctrl:
  assumes "2 \<le> state_index (menuState m)"
  shows "fst (Menu_SecondaryAction_menu m)
      = fst (secondary_menu_ctrl (state_index (menuState m) - 2) (currentSelection m) (previousMenu m))"
    and "ctrl (snd (Menu_SecondaryAction_menu m))
      = snd (secondary_menu_ctrl (state_index (menuState m) - 2) (currentSelection m) (previousMenu m))"
    and "updatableCharTables (snd (Menu_SecondaryAction_menu m)) = updatableCharTables m"
    and "currentTextFields (snd (Menu_SecondaryAction_menu m)) = currentTextFields m"
  by (simp_all add: Menu_SecondaryAction_menu_def menu_task_eq [OF assms] Let_def ctrl_def)

lemma SecondaryAction_ctrl:
  assumes "menu_ok m" "menuState m \<noteq> NO_MENU"
  shows "succeeds (\<lambda>r. fst r = fst (secondary_ctrl (ctrl m)) \<and> menu_ok (snd r)
             \<and> ctrl (snd r) = snd (secondary_ctrl (ctrl m)))
           (Menu_SecondaryAction m)"
proof -
  define m0 where "m0 = m\<lparr>previousMenu := menuState m\<rparr>"
  define r where "r =
    (case menuState m0 of
       PANEL_VIEW \<Rightarrow> (MENU_NO_ACTION, m0\<lparr>menuState := MENU_VIEW_1, currentSelection := 0\<rparr>)
     | BATTERY_VIEW \<Rightarrow> (MENU_NO_ACTION, m0\<lparr>menuState := MENU_VIEW_1, currentSelection := 0\<rparr>)
     | MENU_VIEW_1 \<Rightarrow> Menu_SecondaryAction_menu m0
     | MENU_VIEW_2 \<Rightarrow> Menu_SecondaryAction_menu m0
     | MENU_VIEW_3 \<Rightarrow> Menu_SecondaryAction_menu m0
     | CALIBRATION_VIEW_1 \<Rightarrow>
         (if 0 = currentSelection m0 then (MENU_NO_ACTION, m0\<lparr>menuState := MENU_VIEW_1\<rparr>)
          else (MENU_MEASURE_1, m0\<lparr>menuState := CALIBRATION_VIEW_2\<rparr>))
     | CALIBRATION_VIEW_2 \<Rightarrow>
         (if 0 = currentSelection m0 then (MENU_NO_ACTION, m0\<lparr>menuState := CALIBRATION_VIEW_1\<rparr>)
          else (MENU_MEASURE_2, m0\<lparr>menuState := MENU_VIEW_1\<rparr>))
     | NO_MENU \<Rightarrow> (MENU_NO_ACTION, m0))"
  have m0: "menuState m0 = menuState m" "currentSelection m0 = currentSelection m"
    "previousMenu m0 = menuState m" "updatableCharTables m0 = updatableCharTables m"
    "currentTextFields m0 = currentTextFields m"
    by (simp_all add: m0_def)
  have fst_r: "fst r = fst (secondary_ctrl (ctrl m))"
    and ctrl_r: "ctrl (snd r) = snd (secondary_ctrl (ctrl m))"
    and ok_r: "menu_ok (snd r)"
    using assms
    by (cases "menuState m";
        simp add: r_def m0 ctrl_def [of m] SecondaryAction_menu_ctrl menu_ok_def;
        simp add: ctrl_def)+
  from ctrl_r assms(2) have "menuState (snd r) \<noteq> NO_MENU"
    by (cases "menuState m") (auto simp add: ctrl_def Let_def split: if_splits)
  with ok_r have "succeeds (\<lambda>m'. menu_ok m' \<and> ctrl m' = ctrl (snd r)) (Menu_ChangeView (snd r))"
    by (rule ChangeView_ok)
  moreover have "Menu_SecondaryAction m = Menu_ChangeView (snd r) \<bind> (\<lambda>m''. Some (fst r, m''))"
    unfolding Menu_SecondaryAction_def Let_def m0_def [symmetric] r_def [symmetric]
    by (simp add: case_prod_beta)
  ultimately show ?thesis
    using fst_r ctrl_r by (auto intro!: succeeds_bind)
qed

lemma SecondaryAction_NO_MENU: "menuState m = NO_MENU \<Longrightarrow> Menu_SecondaryAction m = None"
  by (simp add: Menu_SecondaryAction_def ChangeView_NO_MENU)

lemma HandleButtonState_ctrl:
  assumes "menu_ok m" "menuState m \<noteq> NO_MENU \<or> b \<noteq> LONG_CLICK"
  shows "succeeds (\<lambda>r. fst r = fst (button_ctrl b (ctrl m)) \<and> menu_ok (snd r)
             \<and> ctrl (snd r) = snd (button_ctrl b (ctrl m)))
           (Menu_HandleButtonState m b)"
proof (cases b)
  case NO_CLICK
  with assms show ?thesis by (simp add: Menu_HandleButtonState_def)
next
  case SHORT_CLICK
  with PrimaryAction_ctrl [OF assms(1)] show ?thesis
    by (simp add: Menu_HandleButtonState_def)
next
  case LONG_CLICK
  with assms SecondaryAction_ctrl [of m] show ?thesis
    by (simp add: Menu_HandleButtonState_def)
qed

lemma selection_bounded_button:
  "selection_bounded c \<Longrightarrow> selection_bounded (snd (button_ctrl b c))"
  by (cases b; cases c rule: primary_ctrl.cases)
     (auto simp add: selection_bounded_def Let_def)

lemma selection_bounded_leave:
  "selection_bounded c \<Longrightarrow> selection_bounded (leave_NO_MENU c)"
  by (cases c rule: primary_ctrl.cases) (auto simp add: selection_bounded_def)

lemma selection_bounded_update:
  "selection_bounded c \<Longrightarrow> selection_bounded (snd (update_ctrl b c))"
  by (simp add: update_ctrl_def selection_bounded_button selection_bounded_leave)

lemma selection_bounded_less: "selection_bounded (ctrl m) \<Longrightarrow> currentSelection m < 8"
  by (cases "menuState m") (auto simp add: selection_bounded_def ctrl_def)

lemma update_ctrl_not_NO_MENU: "fst (snd (update_ctrl b c)) \<noteq> NO_MENU"
  by (cases "snd (button_ctrl b c)") (simp add: update_ctrl_def)

lemma UpdateView_ctrl:
  assumes "menu_ok m" "selection_bounded (ctrl m)" "menuState m \<noteq> NO_MENU \<or> b \<noteq> LONG_CLICK"
  shows "succeeds (\<lambda>r. fst r = fst (update_ctrl b (ctrl m)) \<and> menu_ok (snd r)
             \<and> ctrl (snd r) = snd (update_ctrl b (ctrl m)))
           (Menu_UpdateView m b meas cal)"
  unfolding Menu_UpdateView_def
proof (rule succeeds_bind [OF HandleButtonState_ctrl [OF assms(1,3)]])
  fix r :: "nat \<times> T_MenuSystem"
  assume r: "fst r = fst (button_ctrl b (ctrl m)) \<and> menu_ok (snd r)
    \<and> ctrl (snd r) = snd (button_ctrl b (ctrl m))"
  obtain t m1 where [simp]: "r = (t, m1)" by (cases r)
  from r assms(2) have "selection_bounded (ctrl m1)"
    by (simp add: selection_bounded_button)
  then have "currentSelection m1 < 8" by (rule selection_bounded_less)
  with r have "succeeds (\<lambda>m'. menu_ok m' \<and>
      ctrl m' = (if menuState m1 = NO_MENU then PANEL_VIEW else menuState m1,
                 currentSelection m1, previousMenu m1))
    (Menu_UpdateTextFields m1 meas cal)"
    by (intro UpdateTextFields_ok) simp_all
  moreover have "leave_NO_MENU (ctrl m1) =
     (if menuState m1 = NO_MENU then PANEL_VIEW else menuState m1,
                 currentSelection m1, previousMenu m1)"
    by (simp add: ctrl_def)
  ultimately have "succeeds (\<lambda>m'. menu_ok m' \<and> ctrl m' = leave_NO_MENU (ctrl m1))
    (Menu_UpdateTextFields m1 meas cal)"
    by simp
  then show "succeeds (\<lambda>r. fst r = fst (update_ctrl b (ctrl m)) \<and> menu_ok (snd r)
             \<and> ctrl (snd r) = snd (update_ctrl b (ctrl m)))
     (case r of (menuAction, m1) \<Rightarrow>
        Menu_UpdateTextFields m1 meas cal \<bind> (\<lambda>m2. Some (menuAction, m2)))"
    using r by (auto simp add: update_ctrl_def intro!: succeeds_bind)
qed

lemma UpdateView_first_LONG_CLICK:
  "menuState m = NO_MENU \<Longrightarrow> Menu_UpdateView m LONG_CLICK meas cal = None"
  by (simp add: Menu_UpdateView_def Menu_HandleButtonState_def SecondaryAction_NO_MENU)

lemma fst_ctrl: "fst (ctrl m) = menuState m"
  by (simp add: ctrl_def)

lemma ctrl_not_NO_MENU: "ctrl m1 = snd (update_ctrl b c) \<Longrightarrow> menuState m1 \<noteq> NO_MENU"
  using update_ctrl_not_NO_MENU [of b c] fst_ctrl [of m1] by simp

lemma Menu_run_ctrl:
  assumes "menu_ok m" "selection_bounded (ctrl m)"
    and "menuState m \<noteq> NO_MENU \<or> ins = [] \<or> fst (hd ins) \<noteq> LONG_CLICK"
  shows "succeeds (\<lambda>r. fst r = fst (run_ctrl (ctrl m) (map fst ins)) \<and> menu_ok (snd r)
             \<and> ctrl (snd r) = snd (run_ctrl (ctrl m) (map fst ins)))
           (Menu_run m ins)"
  using assms
proof (induction ins arbitrary: m)
  case Nil
  then show ?case by simp
next
  case (Cons a ins)
  obtain b meas cal where a: "a = (b, meas, cal)" by (cases a)
  from Cons.prems have first: "menuState m \<noteq> NO_MENU \<or> b \<noteq> LONG_CLICK"
    by (simp add: a)
  have step: "succeeds (\<lambda>r. fst r = fst (update_ctrl b (ctrl m)) \<and> menu_ok (snd r)
             \<and> ctrl (snd r) = snd (update_ctrl b (ctrl m)))
           (Menu_UpdateView m b meas cal)"
    using Cons.prems(1,2) first by (rule UpdateView_ctrl)
  show ?case
    unfolding a Menu_run.simps
  proof (rule succeeds_bind [OF step])
    fix r :: "nat \<times> T_MenuSystem"
    assume r: "fst r = fst (update_ctrl b (ctrl m)) \<and> menu_ok (snd r)
      \<and> ctrl (snd r) = snd (update_ctrl b (ctrl m))"
    obtain t m1 where [simp]: "r = (t, m1)" by (cases r)
    from r have "menuState m1 \<noteq> NO_MENU"
      by (simp add: ctrl_not_NO_MENU)
    moreover from r Cons.prems(2) have "selection_bounded (ctrl m1)"
      by (simp add: selection_bounded_update)
    ultimately have "succeeds (\<lambda>r. fst r = fst (run_ctrl (ctrl m1) (map fst ins)) \<and> menu_ok (snd r)
             \<and> ctrl (snd r) = snd (run_ctrl (ctrl m1) (map fst ins)))
           (Menu_run m1 ins)"
      using r by (intro Cons.IH) simp_all
    then show "succeeds (\<lambda>r. fst r = fst (run_ctrl (ctrl m) (map fst ((b, meas, cal) # ins))) \<and> menu_ok (snd r)
             \<and> ctrl (snd r) = snd (run_ctrl (ctrl m) (map fst ((b, meas, cal) # ins))))
        (case r of (menuAction, m1) \<Rightarrow>
           Menu_run m1 ins \<bind> (\<lambda>(actions, m2). Some (menuAction # actions, m2)))"
      using r by (auto intro!: succeeds_bind)
  qed
qed

lemma menu_init_ok: "menu_ok menu_init"
  by (simp add: menu_ok_def menu_init_def tables_ok_def list_all_iff)

lemma ctrl_menu_init: "ctrl menu_init = (NO_MENU, 0, NO_MENU)"
  by (simp add: ctrl_def menu_init_def)

lemma selection_bounded_init: "selection_bounded (ctrl menu_init)"
  by (simp add: ctrl_menu_init selection_bounded_def)

lemma map_fst_with_inputs: "map fst (with_inputs meas cal clicks) = clicks"
  by (simp add: with_inputs_def comp_def)

lemma Menu_run_from_init:
  assumes "clicks = [] \<or> hd clicks \<noteq> LONG_CLICK"
  shows "\<exists>m. Menu_run menu_init (with_inputs meas cal clicks)
            = Some (fst (run_ctrl (NO_MENU, 0, NO_MENU) clicks), m)
          \<and> menu_ok m \<and> ctrl m = snd (run_ctrl (NO_MENU, 0, NO_MENU) clicks)"
proof -
  have "with_inputs meas cal clicks = [] \<or> fst (hd (with_inputs meas cal clicks)) \<noteq> LONG_CLICK"
    using assms by (cases clicks) (simp_all add: with_inputs_def)
  then have "succeeds (\<lambda>r. fst r = fst (run_ctrl (ctrl menu_init) (map fst (with_inputs meas cal clicks)))
       \<and> menu_ok (snd r)
       \<and> ctrl (snd r) = snd (run_ctrl (ctrl menu_init) (map fst (with_inputs meas cal clicks))))
     (Menu_run menu_init (with_inputs meas cal clicks))"
    by (intro Menu_run_ctrl menu_init_ok selection_bounded_init) simp
  then show ?thesis
    by (auto simp add: map_fst_with_inputs ctrl_menu_init dest!: succeedsD)
qed

lemma Menu_run_invariant:
  assumes "menu_ok m" "selection_bounded (ctrl m)" "Menu_run m ins = Some (ts, m')"
  shows "menu_ok m' \<and> selection_bounded (ctrl m') \<and> (ins \<noteq> [] \<longrightarrow> menuState m' \<noteq> NO_MENU)"
  using assms
proof (induction ins arbitrary: m ts)
  case Nil
  then show ?case by simp
next
  case (Cons a ins)
  obtain b meas cal where a: "a = (b, meas, cal)" by (cases a)
  from Cons.prems(3) obtain t m1 ts1 where
    up: "Menu_UpdateView m b meas cal = Some (t, m1)" and
    rest: "Menu_run m1 ins = Some (ts1, m')"
    by (auto simp add: a split: bind_splits)
  have first: "menuState m \<noteq> NO_MENU \<or> b \<noteq> LONG_CLICK"
    using up UpdateView_first_LONG_CLICK [of m meas cal] by auto
  have "succeeds (\<lambda>r. fst r = fst (update_ctrl b (ctrl m)) \<and> menu_ok (snd r)
             \<and> ctrl (snd r) = snd (update_ctrl b (ctrl m)))
           (Menu_UpdateView m b meas cal)"
    using Cons.prems(1,2) first by (rule UpdateView_ctrl)
  with up have m1: "menu_ok m1" "ctrl m1 = snd (update_ctrl b (ctrl m))"
    by simp_all
  then have sb: "selection_bounded (ctrl m1)"
    using Cons.prems(2) by (simp add: selection_bounded_update)
  from m1 have "menuState m1 \<noteq> NO_MENU"
    by (simp add: ctrl_not_NO_MENU)
  with Cons.IH [OF m1(1) sb rest] show ?case
    by (cases ins) (use rest in auto)
qed

lemmas action_defs =
  MENU_SAVE_def MENU_CANCEL_def MENU_NO_ACTION_def MENU_MEASURE_1_def MENU_MEASURE_2_def

lemmas run_ctrl_simps = update_ctrl_def action_defs

section \<open>The claims\<close>

text \<open>
  Claim C1. From the initial state (\<open>NO_MENU\<close>, selection 0, previous menu \<open>NO_MENU\<close>)
  and for any measurements and calibration information, held fixed over the calls: after
  \<open>NO_CLICK\<close> the view is \<open>PANEL_VIEW\<close>; after a following \<open>LONG_CLICK\<close> it is
  \<open>MENU_VIEW_1\<close> with selection 0; after three \<open>SHORT_CLICK\<close>s the selection is 3; the next
  \<open>LONG_CLICK\<close> returns task 3 and the view is \<open>CALIBRATION_VIEW_1\<close>; a \<open>SHORT_CLICK\<close>
  and a \<open>LONG_CLICK\<close> then return \<open>MENU_MEASURE_1\<close> (13) and the view is
  \<open>CALIBRATION_VIEW_2\<close>. Each list of returned tasks is given in full (12 is
  \<open>MENU_NO_ACTION\<close>).
\<close>

theorem calibration_scenario:
  "\<exists>m1 m2 m5 m6 m8.
     Menu_run menu_init (with_inputs meas cal [NO_CLICK]) = Some ([12], m1)
     \<and> menuState m1 = PANEL_VIEW
     \<and> Menu_run menu_init (with_inputs meas cal [NO_CLICK, LONG_CLICK]) = Some ([12, 12], m2)
     \<and> menuState m2 = MENU_VIEW_1 \<and> currentSelection m2 = 0
     \<and> Menu_run menu_init
           (with_inputs meas cal [NO_CLICK, LONG_CLICK, SHORT_CLICK, SHORT_CLICK, SHORT_CLICK])
         = Some ([12, 12, 12, 12, 12], m5)
     \<and> menuState m5 = MENU_VIEW_1 \<and> currentSelection m5 = 3
     \<and> Menu_run menu_init
           (with_inputs meas cal
              [NO_CLICK, LONG_CLICK, SHORT_CLICK, SHORT_CLICK, SHORT_CLICK, LONG_CLICK])
         = Some ([12, 12, 12, 12, 12, 3], m6)
     \<and> menuState m6 = CALIBRATION_VIEW_1
     \<and> Menu_run menu_init
           (with_inputs meas cal
              [NO_CLICK, LONG_CLICK, SHORT_CLICK, SHORT_CLICK, SHORT_CLICK, LONG_CLICK,
               SHORT_CLICK, LONG_CLICK])
         = Some ([12, 12, 12, 12, 12, 3, 12, MENU_MEASURE_1], m8)
     \<and> MENU_MEASURE_1 = 13
     \<and> menuState m8 = CALIBRATION_VIEW_2"
proof -
  obtain m1 where 1: "Menu_run menu_init (with_inputs meas cal [NO_CLICK]) = Some ([12], m1)"
    "menuState m1 = PANEL_VIEW"
    using Menu_run_from_init [of "[NO_CLICK]" meas cal]
    by (auto simp add: run_ctrl_simps ctrl_def)
  obtain m2 where 2: "Menu_run menu_init (with_inputs meas cal [NO_CLICK, LONG_CLICK]) = Some ([12, 12], m2)"
    "menuState m2 = MENU_VIEW_1" "currentSelection m2 = 0"
    using Menu_run_from_init [of "[NO_CLICK, LONG_CLICK]" meas cal]
    by (auto simp add: run_ctrl_simps ctrl_def)
  obtain m5 where 5: "Menu_run menu_init
           (with_inputs meas cal [NO_CLICK, LONG_CLICK, SHORT_CLICK, SHORT_CLICK, SHORT_CLICK])
         = Some ([12, 12, 12, 12, 12], m5)"
    "menuState m5 = MENU_VIEW_1" "currentSelection m5 = 3"
    using Menu_run_from_init [of "[NO_CLICK, LONG_CLICK, SHORT_CLICK, SHORT_CLICK, SHORT_CLICK]" meas cal]
    by (auto simp add: run_ctrl_simps ctrl_def)
  obtain m6 where 6: "Menu_run menu_init
           (with_inputs meas cal
              [NO_CLICK, LONG_CLICK, SHORT_CLICK, SHORT_CLICK, SHORT_CLICK, LONG_CLICK])
         = Some ([12, 12, 12, 12, 12, 3], m6)"
    "menuState m6 = CALIBRATION_VIEW_1"
    using Menu_run_from_init
      [of "[NO_CLICK, LONG_CLICK, SHORT_CLICK, SHORT_CLICK, SHORT_CLICK, LONG_CLICK]" meas cal]
    by (auto simp add: run_ctrl_simps ctrl_def)
  obtain m8 where 8: "Menu_run menu_init
           (with_inputs meas cal
              [NO_CLICK, LONG_CLICK, SHORT_CLICK, SHORT_CLICK, SHORT_CLICK, LONG_CLICK,
               SHORT_CLICK, LONG_CLICK])
         = Some ([12, 12, 12, 12, 12, 3, 12, MENU_MEASURE_1], m8)"
    "menuState m8 = CALIBRATION_VIEW_2"
    using Menu_run_from_init
      [of "[NO_CLICK, LONG_CLICK, SHORT_CLICK, SHORT_CLICK, SHORT_CLICK, LONG_CLICK,
            SHORT_CLICK, LONG_CLICK]" meas cal]
    by (auto simp add: run_ctrl_simps ctrl_def)
  from 1 2 5 6 8 show ?thesis
    by (auto simp add: MENU_MEASURE_1_def)
qed

theorem calibration_scenario_witness:
  "\<exists>m8. Menu_run menu_init
           (with_inputs no_signal calib_init
              [NO_CLICK, LONG_CLICK, SHORT_CLICK, SHORT_CLICK, SHORT_CLICK, LONG_CLICK,
               SHORT_CLICK, LONG_CLICK])
         = Some ([12, 12, 12, 12, 12, 3, 12, 13], m8)
     \<and> menuState m8 = CALIBRATION_VIEW_2"
  using calibration_scenario [of no_signal calib_init] by (auto simp add: MENU_MEASURE_1_def)

lemma UpdateView_result:
  assumes "menu_ok m" "selection_bounded (ctrl m)" "menuState m \<noteq> NO_MENU \<or> b \<noteq> LONG_CLICK"
  shows "\<exists>m'. Menu_UpdateView m b meas cal = Some (fst (update_ctrl b (ctrl m)), m')
           \<and> menu_ok m' \<and> ctrl m' = snd (update_ctrl b (ctrl m))"
  using UpdateView_ctrl [OF assms, of meas cal] by (auto dest!: succeedsD)

text \<open>
  Claim C2, as stated, fails. The clicks \<open>NO_CLICK\<close>, \<open>LONG_CLICK\<close>, \<open>LONG_CLICK\<close>,
  \<open>SHORT_CLICK\<close>, \<open>LONG_CLICK\<close> lead from the initial state to \<open>CALIBRATION_VIEW_2\<close>
  with selection 1; one more \<open>LONG_CLICK\<close> returns \<open>MENU_MEASURE_2\<close> (14) and the view is
  \<open>MENU_VIEW_1\<close>, not \<open>PANEL_VIEW\<close>.
\<close>

theorem calibration_2_confirm_counterexample:
  "map_option (map_prod id menuState)
     (Menu_run menu_init
        (with_inputs no_signal calib_init
           [NO_CLICK, LONG_CLICK, LONG_CLICK, SHORT_CLICK, LONG_CLICK]))
     = Some ([12, 12, 0, 12, 13], CALIBRATION_VIEW_2)
   \<and> map_option (map_prod id currentSelection)
     (Menu_run menu_init
        (with_inputs no_signal calib_init
           [NO_CLICK, LONG_CLICK, LONG_CLICK, SHORT_CLICK, LONG_CLICK]))
     = Some ([12, 12, 0, 12, 13], 1)
   \<and> map_option (map_prod id menuState)
     (Menu_run menu_init
        (with_inputs no_signal calib_init
           [NO_CLICK, LONG_CLICK, LONG_CLICK, SHORT_CLICK, LONG_CLICK, LONG_CLICK]))
     = Some ([12, 12, 0, 12, 13, 14], MENU_VIEW_1)
   \<and> MENU_VIEW_1 \<noteq> PANEL_VIEW"
proof -
  obtain m5 where 5: "Menu_run menu_init
        (with_inputs no_signal calib_init
           [NO_CLICK, LONG_CLICK, LONG_CLICK, SHORT_CLICK, LONG_CLICK])
      = Some ([12, 12, 0, 12, 13], m5)"
    "menuState m5 = CALIBRATION_VIEW_2" "currentSelection m5 = 1"
    using Menu_run_from_init
      [of "[NO_CLICK, LONG_CLICK, LONG_CLICK, SHORT_CLICK, LONG_CLICK]" no_signal calib_init]
    by (auto simp add: run_ctrl_simps ctrl_def)
  obtain m6 where 6: "Menu_run menu_init
        (with_inputs no_signal calib_init
           [NO_CLICK, LONG_CLICK, LONG_CLICK, SHORT_CLICK, LONG_CLICK, LONG_CLICK])
      = Some ([12, 12, 0, 12, 13, 14], m6)"
    "menuState m6 = MENU_VIEW_1"
    using Menu_run_from_init
      [of "[NO_CLICK, LONG_CLICK, LONG_CLICK, SHORT_CLICK, LONG_CLICK, LONG_CLICK]"
          no_signal calib_init]
    by (auto simp add: run_ctrl_simps ctrl_def)
  from 5 6 show ?thesis by simp
qed

text \<open>
  Claim C2, amended. In every state that a run from the initial state reaches and whose view is
  \<open>CALIBRATION_VIEW_2\<close>, a \<open>LONG_CLICK\<close> with selection 0 goes back to
  \<open>CALIBRATION_VIEW_1\<close> and returns \<open>MENU_NO_ACTION\<close>; with any other selection it goes to
  \<open>MENU_VIEW_1\<close> and returns \<open>MENU_MEASURE_2\<close> (14).
\<close>

theorem calibration_2_confirm:
  assumes "Menu_run menu_init ins = Some (ts, m)"
    and "menuState m = CALIBRATION_VIEW_2"
  shows "\<exists>m'. Menu_UpdateView m LONG_CLICK meas cal
           = Some (if currentSelection m = 0 then MENU_NO_ACTION else MENU_MEASURE_2, m')
         \<and> menuState m'
           = (if currentSelection m = 0 then CALIBRATION_VIEW_1 else MENU_VIEW_1)
         \<and> MENU_NO_ACTION = 12 \<and> MENU_MEASURE_2 = 14"
proof -
  from Menu_run_invariant [OF menu_init_ok selection_bounded_init assms(1)]
  have ok: "menu_ok m" "selection_bounded (ctrl m)" by simp_all
  from UpdateView_result [OF ok, of LONG_CLICK meas cal] assms(2)
  obtain m' where "Menu_UpdateView m LONG_CLICK meas cal
      = Some (fst (update_ctrl LONG_CLICK (ctrl m)), m')"
    "ctrl m' = snd (update_ctrl LONG_CLICK (ctrl m))"
    by auto
  with assms(2) show ?thesis
    by (auto simp add: ctrl_def update_ctrl_def action_defs)
qed

theorem calibration_2_confirm_witness:
  "\<exists>m m'. Menu_run menu_init
        (with_inputs no_signal calib_init
           [NO_CLICK, LONG_CLICK, LONG_CLICK, SHORT_CLICK, LONG_CLICK])
      = Some ([12, 12, 0, 12, 13], m)
    \<and> menuState m = CALIBRATION_VIEW_2 \<and> currentSelection m = 1
    \<and> Menu_UpdateView m LONG_CLICK no_signal calib_init = Some (14, m')
    \<and> menuState m' = MENU_VIEW_1"
proof -
  obtain m where m: "Menu_run menu_init
        (with_inputs no_signal calib_init
           [NO_CLICK, LONG_CLICK, LONG_CLICK, SHORT_CLICK, LONG_CLICK])
      = Some ([12, 12, 0, 12, 13], m)"
    "menuState m = CALIBRATION_VIEW_2" "currentSelection m = 1"
    using Menu_run_from_init
      [of "[NO_CLICK, LONG_CLICK, LONG_CLICK, SHORT_CLICK, LONG_CLICK]" no_signal calib_init]
    by (auto simp add: run_ctrl_simps ctrl_def)
  from calibration_2_confirm [OF m(1,2), of no_signal calib_init] m
  show ?thesis by (auto simp add: action_defs)
qed

text \<open>
  Claim C3. In \<open>MENU_VIEW_1\<close>, \<open>MENU_VIEW_2\<close> and \<open>MENU_VIEW_3\<close> with a selection of
  0 to 3, a \<open>LONG_CLICK\<close> returns the task
  \<open>(index of the view - index of MENU_VIEW_1) * 4 + selection\<close>, which is at most 11, and
  sets the selection to 0; for the tasks 0 to 9 the next view is \<open>CALIBRATION_VIEW_1\<close>, for
  10 and 11 it is \<open>PANEL_VIEW\<close>.
\<close>

theorem menu_confirm:
  assumes "menu_ok m"
    and "menuState m = MENU_VIEW_1 \<or> menuState m = MENU_VIEW_2 \<or> menuState m = MENU_VIEW_3"
    and "currentSelection m \<le> 3"
  shows "\<exists>m'. Menu_UpdateView m LONG_CLICK meas cal
           = Some ((state_index (menuState m) - state_index MENU_VIEW_1) * 4 + currentSelection m, m')
         \<and> (state_index (menuState m) - state_index MENU_VIEW_1) * 4 + currentSelection m \<le> 11
         \<and> currentSelection m' = 0
         \<and> menuState m'
           = (if (state_index (menuState m) - state_index MENU_VIEW_1) * 4 + currentSelection m \<le> 9
              then CALIBRATION_VIEW_1 else PANEL_VIEW)"
proof -
  have sb: "selection_bounded (ctrl m)"
    using assms(2,3) by (auto simp add: selection_bounded_def ctrl_def)
  from UpdateView_result [OF assms(1) sb, of LONG_CLICK meas cal] assms(2)
  obtain m' where m': "Menu_UpdateView m LONG_CLICK meas cal
      = Some (fst (update_ctrl LONG_CLICK (ctrl m)), m')"
    "ctrl m' = snd (update_ctrl LONG_CLICK (ctrl m))"
    by auto
  from assms(3) have "currentSelection m = 0 \<or> currentSelection m = 1
      \<or> currentSelection m = 2 \<or> currentSelection m = 3"
    by auto
  with assms(2) m' show ?thesis
    by (auto simp add: ctrl_def update_ctrl_def)
qed

theorem menu_confirm_witness:
  "\<exists>m'. menu_ok (menu_init\<lparr>menuState := MENU_VIEW_3, currentSelection := 2\<rparr>)
     \<and> Menu_UpdateView (menu_init\<lparr>menuState := MENU_VIEW_3, currentSelection := 2\<rparr>)
          LONG_CLICK no_signal calib_init = Some (10, m')
     \<and> currentSelection m' = 0 \<and> menuState m' = PANEL_VIEW"
proof -
  have ok: "menu_ok (menu_init\<lparr>menuState := MENU_VIEW_3, currentSelection := 2\<rparr>)"
    using menu_init_ok by (simp add: menu_ok_def)
  from menu_confirm [OF ok, of no_signal calib_init] ok show ?thesis
    by simp
qed

lemma selection_bounded_limit:
  "selection_bounded (ctrl m) \<Longrightarrow>
   currentSelection m \<le> selection_limit (menuState m) \<and> currentSelection m \<le> 3"
  by (cases "menuState m") (simp_all add: selection_bounded_def ctrl_def)

text \<open>
  The selection after the runs that return. After every call of such a run from the initial
  state, whatever the button events, measurements and calibration information, the selection
  is at most 3 in the menu views, at most 1 in the calibration views, and at most 3 in every
  view. A run returns when its first event is not a \<open>LONG_CLICK\<close>. (Every prefix of a
  list of inputs is a list of inputs, so the statement covers the state after each call.)
\<close>

lemma selection_in_range_returned:
  "(\<forall>ts m. Menu_run menu_init ins = Some (ts, m) \<longrightarrow>
       currentSelection m \<le> selection_limit (menuState m) \<and> currentSelection m \<le> 3)
   \<and> (ins = [] \<or> fst (hd ins) \<noteq> LONG_CLICK \<longrightarrow> (\<exists>ts m. Menu_run menu_init ins = Some (ts, m)))"
proof (intro conjI allI impI)
  fix ts m
  assume "Menu_run menu_init ins = Some (ts, m)"
  from Menu_run_invariant [OF menu_init_ok selection_bounded_init this]
  have "selection_bounded (ctrl m)" by simp
  then show "currentSelection m \<le> selection_limit (menuState m)" "currentSelection m \<le> 3"
    by (simp_all add: selection_bounded_limit)
next
  assume "ins = [] \<or> fst (hd ins) \<noteq> LONG_CLICK"
  then have "succeeds (\<lambda>r. fst r = fst (run_ctrl (ctrl menu_init) (map fst ins)) \<and> menu_ok (snd r)
             \<and> ctrl (snd r) = snd (run_ctrl (ctrl menu_init) (map fst ins)))
           (Menu_run menu_init ins)"
    by (intro Menu_run_ctrl menu_init_ok selection_bounded_init) simp
  then show "\<exists>ts m. Menu_run menu_init ins = Some (ts, m)"
    by (auto dest!: succeedsD)
qed

lemma selection_in_range_example:
  "\<exists>ts m. Menu_run menu_init
       (with_inputs no_signal calib_init
          [NO_CLICK, LONG_CLICK, SHORT_CLICK, SHORT_CLICK, SHORT_CLICK, SHORT_CLICK, SHORT_CLICK])
      = Some (ts, m)
    \<and> currentSelection m \<le> selection_limit (menuState m) \<and> currentSelection m \<le> 3"
  using selection_in_range_returned
    [of "with_inputs no_signal calib_init
          [NO_CLICK, LONG_CLICK, SHORT_CLICK, SHORT_CLICK, SHORT_CLICK, SHORT_CLICK, SHORT_CLICK]"]
  by (simp add: with_inputs_def) blast

text \<open>
  Claim C4 at a sequence of button events that starts with a \<open>LONG_CLICK\<close>. The first
  call of the run is \<open>Menu_UpdateView\<close> in the state \<open>NO_MENU\<close>:
  \<open>Menu_SecondaryAction\<close> has no case for it and calls \<open>Menu_ChangeView\<close>, which reads
  index 7 of the seven views of \<open>MENU_VIEWS\<close> and copies as many text fields as it finds
  there. The run has no defined result, whatever the events that follow, so it has no
  selection that is known to be in the range of the active view.
\<close>

theorem selection_after_first_long_click:
  "Menu_run menu_init ((LONG_CLICK, meas, cal) # ins) = None"
  by (simp add: UpdateView_first_LONG_CLICK menu_init_def)

theorem selection_after_first_long_click_witness:
  "Menu_run menu_init (with_inputs no_signal calib_init [LONG_CLICK, SHORT_CLICK, SHORT_CLICK]) = None"
  using selection_after_first_long_click
    [of no_signal calib_init "with_inputs no_signal calib_init [SHORT_CLICK, SHORT_CLICK]"]
  by (simp add: with_inputs_def)

text \<open>
  Claim C9 at a \<open>LONG_CLICK\<close> in the first call. \<open>Menu_SecondaryAction\<close> has no case
  for \<open>NO_MENU\<close> and then calls \<open>Menu_ChangeView\<close>, which reads
  \<open>views[NO_MENU]\<close>: index 7 of the seven views of \<open>MENU_VIEWS\<close>. The call has no defined
  result, so the view after it is not known to be \<open>PANEL_VIEW\<close>.
\<close>

theorem first_call_long_click:
  "Menu_UpdateView menu_init LONG_CLICK meas cal = None
   \<and> Menu_ChangeView (menu_init\<lparr>previousMenu := NO_MENU\<rparr>) = None
   \<and> state_index (menuState menu_init) = 7 \<and> length MENU_VIEWS = 7"
  by (simp add: UpdateView_first_LONG_CLICK ChangeView_NO_MENU length_MENU_VIEWS menu_init_def)

theorem first_call_long_click_witness:
  "Menu_UpdateView menu_init LONG_CLICK no_signal calib_init = None"
  using first_call_long_click [of no_signal calib_init] by simp

lemma first_call_other:
  assumes "b \<noteq> LONG_CLICK"
  shows "\<exists>m'. Menu_UpdateView menu_init b meas cal = Some (MENU_NO_ACTION, m')
           \<and> menuState m' = PANEL_VIEW"
proof -
  from UpdateView_result [OF menu_init_ok selection_bounded_init, of b meas cal] assms
  obtain m' where "Menu_UpdateView menu_init b meas cal
      = Some (fst (update_ctrl b (ctrl menu_init)), m')"
    "ctrl m' = snd (update_ctrl b (ctrl menu_init))"
    by auto
  with assms show ?thesis
    by (cases b) (auto simp add: ctrl_def update_ctrl_def menu_init_def)
qed

lemma never_NO_MENU_after_update:
  assumes "Menu_run menu_init ins = Some (ts, m)" "Menu_UpdateView m b meas cal = Some (t, m')"
  shows "menuState m' \<noteq> NO_MENU"
proof -
  from Menu_run_invariant [OF menu_init_ok selection_bounded_init assms(1)]
  have ok: "menu_ok m" "selection_bounded (ctrl m)" by simp_all
  have "menuState m \<noteq> NO_MENU \<or> b \<noteq> LONG_CLICK"
    using assms(2) UpdateView_first_LONG_CLICK [of m meas cal] by auto
  from UpdateView_result [OF ok this, of meas cal] assms(2)
  have "ctrl m' = snd (update_ctrl b (ctrl m))" by auto
  then show ?thesis by (rule ctrl_not_NO_MENU)
qed

lemma length_int_part_text: "length (int_part_text k) = 3"
  by (simp add: int_part_text_def)

lemma length_float_text: "length (float_text v) = 6"
  by (simp add: float_text_def length_int_part_text)

lemma FloatToCharArray_float_text:
  "length a = 8 \<Longrightarrow> Menu_FloatToCharArray a v = Some (float_text v @ drop 6 a)"
  by (simp add: FloatToCharArray_eq float_text_def)

lemma drop_6_of_8: "length a = 8 \<Longrightarrow> drop 6 a = [a ! 6, a ! 7]"
  using len8 [of a] by auto

lemma refresh_slot_frame:
  "length a = 8 \<Longrightarrow>
   \<exists>a'. refresh_slot vs a = Some a' \<and> length a' = 8 \<and> drop 6 a' = drop 6 a"
proof (induction vs arbitrary: a)
  case Nil
  then show ?case by simp
next
  case (Cons v vs)
  have "length (float_text v @ drop 6 a) = 8"
    using Cons.prems by (simp add: length_float_text)
  from Cons.IH [OF this] Cons.prems show ?case
    by (simp add: FloatToCharArray_float_text length_float_text)
qed

text \<open>
  Claim C10. For a value whose truncated integer part is below 1000,
  \<open>Menu_FloatToCharArray\<close> returns an eight-byte array that differs from the one it was
  given at most at the indices 0 to 5: the bytes at 6 and 7 are the old ones. So a unit letter
  at index 6 is still there after any number of further refreshes of the same array with
  such values. (The value is converted to an \<open>unsigned int\<close> of 16 bits, so its integer part
  has at most three digits.)
\<close>

theorem float_to_char_array_frame:
  assumes "length a = 8" "trunc v < 1000" "list_all (\<lambda>w. trunc w < 1000) vs"
  shows "\<exists>a1 a2. Menu_FloatToCharArray a v = Some a1 \<and> length a1 = 8
           \<and> a1 ! 6 = a ! 6 \<and> a1 ! 7 = a ! 7
           \<and> refresh_slot vs a1 = Some a2 \<and> length a2 = 8
           \<and> a2 ! 6 = a ! 6 \<and> a2 ! 7 = a ! 7"
proof -
  define a1 where "a1 = float_text v @ drop 6 a"
  have a1: "Menu_FloatToCharArray a v = Some a1" "length a1 = 8" "drop 6 a1 = drop 6 a"
    using assms(1) by (simp_all add: a1_def FloatToCharArray_float_text length_float_text)
  from refresh_slot_frame [OF a1(2), of vs]
  obtain a2 where a2: "refresh_slot vs a1 = Some a2" "length a2 = 8" "drop 6 a2 = drop 6 a1"
    by blast
  from a1(3) a2(3) have "a1 ! 6 = a ! 6 \<and> a1 ! 7 = a ! 7 \<and> a2 ! 6 = a ! 6 \<and> a2 ! 7 = a ! 7"
    using assms(1) a1(2) a2(2) by (simp add: drop_6_of_8)
  with a1 a2 show ?thesis by blast
qed

lemma trunc_numeral [simp]: "trunc (numeral k) = numeral k"
  by (simp add: trunc_def)

lemma trunc_nonneg: "0 \<le> r \<Longrightarrow> trunc r = \<lfloor>r\<rfloor>"
  by (simp add: trunc_def)

theorem float_to_char_array_frame_witness:
  "\<exists>a1 a2. Menu_FloatToCharArray [CHR ''x'', CHR ''x'', CHR ''x'', CHR ''x'', CHR ''x'', CHR ''x'', CHR ''V'', NUL] 12
         = Some a1
     \<and> a1 ! 6 = CHR ''V''
     \<and> refresh_slot [5, 99] a1 = Some a2 \<and> a2 ! 6 = CHR ''V''"
  using float_to_char_array_frame
    [of "[CHR ''x'', CHR ''x'', CHR ''x'', CHR ''x'', CHR ''x'', CHR ''x'', CHR ''V'', NUL]" 12 "[5, 99]"]
  by simp blast

lemma on_table_Some:
  "k < length tabs \<Longrightarrow> f (tabs ! k) = Some t \<Longrightarrow> on_table tabs k f = Some (tabs[k := t])"
  by (simp add: on_table_def)

lemma float_text_update_6:
  "length t = 8 \<Longrightarrow> (float_text v @ drop 6 t)[6 := u] = float_text v @ [u, t ! 7]"
  using length_float_text [of v]
  by (simp add: drop_6_of_8 list_update_append)

lemma slot_step:
  assumes "tables_ok tabs" "j < 8"
  shows "on_table tabs j (\<lambda>t. Menu_FloatToCharArray t v) \<bind> (\<lambda>tabs. on_table tabs j (\<lambda>t. store t 6 u))
     = Some (tabs[j := float_text v @ [u, tabs ! j ! 7]])"
proof -
  have len: "length tabs = 8" "length (tabs ! j) = 8"
    using assms by (simp_all add: tables_ok_def tables_ok_nth)
  have 1: "on_table tabs j (\<lambda>t. Menu_FloatToCharArray t v)
      = Some (tabs[j := float_text v @ drop 6 (tabs ! j)])"
    using assms(2) len by (intro on_table_Some) (simp_all add: FloatToCharArray_float_text)
  have 2: "on_table (tabs[j := float_text v @ drop 6 (tabs ! j)]) j (\<lambda>t. store t 6 u)
      = Some (tabs[j := float_text v @ drop 6 (tabs ! j), j := (float_text v @ drop 6 (tabs ! j))[6 := u]])"
    using assms(2) len
    by (intro on_table_Some) (simp_all add: store_def length_float_text)
  show ?thesis
    using len by (simp add: 1 2 float_text_update_6)
qed

lemma tables_ok_slot: "tables_ok tabs \<Longrightarrow> tables_ok (tabs[j := float_text v @ [u, c]])"
  by (rule tables_ok_update) (simp_all add: length_float_text)

lemma panel_other:
  "k \<notin> set is \<Longrightarrow> tables_ok tabs \<Longrightarrow> list_all (\<lambda>i. i < 8) is \<Longrightarrow>
   \<exists>tabs'. Menu_UpdateTextFields_panel is meas tabs = Some tabs' \<and> tabs' ! k = tabs ! k"
proof (induction "is" arbitrary: tabs)
  case Nil
  then show ?case by simp
next
  case (Cons j "is")
  let ?u = "if 0 = j mod 2 then CHR ''V'' else CHR ''A''"
  let ?tabs = "tabs[j := float_text (meas j) @ [?u, tabs ! j ! 7]]"
  have step: "on_table tabs j (\<lambda>t. Menu_FloatToCharArray t (meas j))
      \<bind> (\<lambda>tabs. on_table tabs j (\<lambda>t. store t 6 ?u)) = Some ?tabs"
    using Cons.prems by (intro slot_step) simp_all
  have "\<exists>tabs'. Menu_UpdateTextFields_panel is meas ?tabs = Some tabs' \<and> tabs' ! k = ?tabs ! k"
    using Cons.prems by (intro Cons.IH tables_ok_slot) simp_all
  moreover have "?tabs ! k = tabs ! k" using Cons.prems by simp
  moreover have "Menu_UpdateTextFields_panel (j # is) meas tabs
      = Menu_UpdateTextFields_panel is meas ?tabs"
    using step by (simp only: Menu_UpdateTextFields_panel.simps flip: Option.bind_assoc) simp
  ultimately show ?case by simp
qed

lemma panel_slot:
  "i \<in> set is \<Longrightarrow> distinct is \<Longrightarrow> tables_ok tabs \<Longrightarrow> list_all (\<lambda>i. i < 8) is \<Longrightarrow>
   \<exists>tabs'. Menu_UpdateTextFields_panel is meas tabs = Some tabs'
     \<and> take 7 (tabs' ! i) = float_text (meas i) @ [if 0 = i mod 2 then CHR ''V'' else CHR ''A'']"
proof (induction "is" arbitrary: tabs)
  case Nil
  then show ?case by simp
next
  case (Cons j "is")
  let ?u = "if 0 = j mod 2 then CHR ''V'' else CHR ''A''"
  let ?tabs = "tabs[j := float_text (meas j) @ [?u, tabs ! j ! 7]]"
  have len: "length tabs = 8" using Cons.prems by (simp add: tables_ok_def)
  have step: "on_table tabs j (\<lambda>t. Menu_FloatToCharArray t (meas j))
      \<bind> (\<lambda>tabs. on_table tabs j (\<lambda>t. store t 6 ?u)) = Some ?tabs"
    using Cons.prems by (intro slot_step) simp_all
  have unfold: "Menu_UpdateTextFields_panel (j # is) meas tabs
      = Menu_UpdateTextFields_panel is meas ?tabs"
    using step by (simp only: Menu_UpdateTextFields_panel.simps flip: Option.bind_assoc) simp
  have ok: "tables_ok ?tabs" using Cons.prems by (intro tables_ok_slot)
  show ?case
  proof (cases "i = j")
    case True
    then have "i \<notin> set is" using Cons.prems by simp
    from panel_other [OF this ok, of meas] Cons.prems
    obtain tabs' where "Menu_UpdateTextFields_panel is meas ?tabs = Some tabs'"
      "tabs' ! i = ?tabs ! i" by auto
    then have "Menu_UpdateTextFields_panel (i # is) meas tabs = Some tabs'"
      "take 7 (tabs' ! i) = float_text (meas i) @ [if 0 = i mod 2 then CHR ''V'' else CHR ''A'']"
      using True len Cons.prems unfold by (simp_all add: length_float_text del: Menu_UpdateTextFields_panel.simps)
    with True show ?thesis by blast
  next
    case False
    with Cons.prems have "i \<in> set is" "distinct is" "list_all (\<lambda>i. i < 8) is" by simp_all
    from Cons.IH [OF this(1,2) ok this(3)] show ?thesis
      by (simp only: unfold)
  qed
qed

lemma digit_char_0: "digit_char 0 = CHR ''0''"
  unfolding digit_char_def by code_simp

lemma float_mult_percent:
  assumes "binary32 v" "0 \<le> v" "v < 100"
  shows "0 \<le> float_mult v 100" "float_mult v 100 < 10000"
  using assms float_round_nonneg [of "v * 100"] float_round_percent_less [of v]
  by (simp_all add: float_mult_def)

lemma float_to_unsigned_small:
  assumes "binary32 v" "0 \<le> v" "v < 100"
  shows "float_to_unsigned (float_mult v 100) = nat (trunc (float_mult v 100))"
    "nat (trunc (float_mult v 100)) < 10000"
proof -
  define p where "p = float_mult v 100"
  have nn: "0 \<le> p" and less: "p < 10000"
    using float_mult_percent [OF assms] by (simp_all add: p_def)
  from nn have t: "trunc p = \<lfloor>p\<rfloor>" by (rule trunc_nonneg)
  have lo: "0 \<le> \<lfloor>p\<rfloor>" using nn by simp
  have hi: "\<lfloor>p\<rfloor> < 10000" using less by (simp add: floor_less_iff)
  from lo hi have "float_to_unsigned p = nat (trunc p)"
    by (simp add: float_to_unsigned_def t)
  then show "float_to_unsigned (float_mult v 100) = nat (trunc (float_mult v 100))"
    by (simp only: p_def)
  from lo hi have "nat \<lfloor>p\<rfloor> < 10000" by linarith
  then have "nat (trunc p) < 10000" by (simp only: t)
  then show "nat (trunc (float_mult v 100)) < 10000" by (simp only: p_def)
qed

lemma float_text_small:
  assumes "binary32 v" "0 \<le> v" "v < 100" "n = nat (trunc (float_mult v 100))"
  shows "float_text v =
    [CHR '' '', if n < 1000 then CHR '' '' else digit_char (n div 1000), digit_char (n div 100),
     CHR '','', digit_char (n div 10), digit_char n]"
proof -
  have n: "float_to_unsigned (float_mult v 100) = n" "n < 10000"
    using float_to_unsigned_small [OF assms(1-3)] assms(4) by simp_all
  have "n div 100 < 100" using n(2) by simp
  moreover have "n div 100 div 10 = n div 1000" by (simp add: div_mult2_eq)
  moreover have "n div 100 < 10 \<longleftrightarrow> n < 1000" by auto
  ultimately show ?thesis
    unfolding float_text_def n(1) int_part_text_def
    by (auto simp add: digit_char_0)
qed

lemma UpdateTextFields_panel_view:
  assumes "menuState m = PANEL_VIEW"
  shows "Menu_UpdateTextFields m meas cal
    = Menu_UpdateTextFields_panel [0..<8] meas (updatableCharTables m)
        \<bind> (\<lambda>tabs. Some (m\<lparr>updatableCharTables := tabs\<rparr>))"
  using assms by (simp add: Menu_UpdateTextFields_def)

lemma UpdateTextFields_battery_view:
  assumes "menuState m = BATTERY_VIEW" "tables_ok (updatableCharTables m)"
  shows "Menu_UpdateTextFields m meas cal
    = Some (m\<lparr>updatableCharTables := (updatableCharTables m)
         [0 := float_text (meas BATTERY_VOLTAGE) @ [CHR ''V'', updatableCharTables m ! 0 ! 7],
          Suc 0 := float_text (meas BATTERY_CURRENT) @ [CHR ''A'', updatableCharTables m ! Suc 0 ! 7]]\<rparr>)"
proof -
  let ?tabs = "updatableCharTables m"
  let ?t0 = "float_text (meas BATTERY_VOLTAGE) @ drop 6 (?tabs ! 0)"
  let ?t1 = "float_text (meas BATTERY_CURRENT) @ drop 6 (?tabs ! Suc 0)"
  have len: "length ?tabs = 8" "length (?tabs ! 0) = 8" "length (?tabs ! Suc 0) = 8"
    using assms(2) by (simp_all add: tables_ok_def tables_ok_nth)
  have 1: "on_table ?tabs 0 (\<lambda>t. Menu_FloatToCharArray t (meas BATTERY_VOLTAGE))
      = Some (?tabs[0 := ?t0])"
    using len by (intro on_table_Some) (simp_all add: FloatToCharArray_float_text)
  have 2: "on_table (?tabs[0 := ?t0]) (Suc 0) (\<lambda>t. Menu_FloatToCharArray t (meas BATTERY_CURRENT))
      = Some (?tabs[0 := ?t0, Suc 0 := ?t1])"
    using len by (intro on_table_Some) (simp_all add: FloatToCharArray_float_text)
  have 3: "on_table (?tabs[0 := ?t0, Suc 0 := ?t1]) 0 (\<lambda>t. store t 6 (CHR ''V''))
      = Some (?tabs[0 := ?t0, Suc 0 := ?t1, 0 := ?t0[6 := CHR ''V'']])"
    using len by (intro on_table_Some) (simp_all add: store_def length_float_text)
  have 4: "on_table (?tabs[0 := ?t0, Suc 0 := ?t1, 0 := ?t0[6 := CHR ''V'']]) (Suc 0)
        (\<lambda>t. store t 6 (CHR ''A''))
      = Some (?tabs[0 := ?t0, Suc 0 := ?t1, 0 := ?t0[6 := CHR ''V''], Suc 0 := ?t1[6 := CHR ''A'']])"
    using len by (intro on_table_Some) (simp_all add: store_def length_float_text)
  have eq: "?tabs[0 := ?t0, Suc 0 := ?t1, 0 := ?t0[6 := CHR ''V''], Suc 0 := ?t1[6 := CHR ''A'']]
      = ?tabs[0 := float_text (meas BATTERY_VOLTAGE) @ [CHR ''V'', ?tabs ! 0 ! 7],
              Suc 0 := float_text (meas BATTERY_CURRENT) @ [CHR ''A'', ?tabs ! Suc 0 ! 7]]"
    using len by (simp add: float_text_update_6 list_eq_iff_nth_eq nth_list_update)
  have "Menu_UpdateTextFields m meas cal
      = on_table ?tabs 0 (\<lambda>t. Menu_FloatToCharArray t (meas BATTERY_VOLTAGE))
          \<bind> (\<lambda>tabs. on_table tabs (Suc 0) (\<lambda>t. Menu_FloatToCharArray t (meas BATTERY_CURRENT))
          \<bind> (\<lambda>tabs. on_table tabs 0 (\<lambda>t. store t 6 (CHR ''V''))
          \<bind> (\<lambda>tabs. on_table tabs (Suc 0) (\<lambda>t. store t 6 (CHR ''A''))
          \<bind> (\<lambda>tabs. Some (m\<lparr>updatableCharTables := tabs\<rparr>)))))"
    using assms(1) by (simp add: Menu_UpdateTextFields_def)
  also have "\<dots> = Some (m\<lparr>updatableCharTables :=
      ?tabs[0 := ?t0, Suc 0 := ?t1, 0 := ?t0[6 := CHR ''V''], Suc 0 := ?t1[6 := CHR ''A'']]\<rparr>)"
    by (simp only: 1 2 3 4 Option.bind.simps)
  finally show ?thesis by (simp only: eq)
qed

text \<open>
  Claim C8. Let the float \<open>v\<close> with \<open>0 \<le> v < 100\<close> be the value of channel \<open>ch\<close> and
  \<open>n\<close> the truncation of \<open>v * 100\<close>, the single-precision product that the C expression
  computes. After \<open>Menu_UpdateTextFields\<close>, the char table that shows the channel (table
  \<open>ch\<close> in the panel view; tables 0 and 1 for the channels 8 and 9 in the battery view)
  starts with seven characters: a space; at index 1 the tens digit of \<open>n div 100\<close>, or a
  space when \<open>n div 100\<close> has one digit; at index 2 the last digit of \<open>n div 100\<close>
  (\<open>0\<close> when \<open>n div 100 = 0\<close>); a comma at index 3; the two low digits of \<open>n\<close> at the
  indices 4 and 5; and at index 6 the unit letter, \<open>V\<close> for an even channel and \<open>A\<close>
  for an odd one. \<open>digit_char k\<close> is the character of the last decimal digit of \<open>k\<close>.
\<close>

theorem live_slot_text:
  assumes "tables_ok (updatableCharTables m)"
    and "menuState m = PANEL_VIEW \<and> i < 8 \<and> ch = i
         \<or> menuState m = BATTERY_VIEW \<and> i < 2 \<and> ch = BATTERY_VOLTAGE + i"
    and "binary32 (meas ch)" "0 \<le> meas ch" "meas ch < 100"
    and "n = nat (trunc (float_mult (meas ch) 100))"
  shows "\<exists>m'. Menu_UpdateTextFields m meas cal = Some m'
    \<and> take 7 (updatableCharTables m' ! i) =
        [CHR '' '',
         if n < 1000 then CHR '' '' else digit_char (n div 1000),
         digit_char (n div 100),
         CHR '','',
         digit_char (n div 10),
         digit_char n,
         if even ch then CHR ''V'' else CHR ''A'']"
proof -
  have ft: "float_text (meas ch) =
    [CHR '' '', if n < 1000 then CHR '' '' else digit_char (n div 1000), digit_char (n div 100),
     CHR '','', digit_char (n div 10), digit_char n]"
    using assms(3-6) by (rule float_text_small)
  from assms(2) show ?thesis
  proof (elim disjE conjE)
    assume v: "menuState m = PANEL_VIEW" and i: "i < 8" and ch: "ch = i"
    have "\<exists>tabs'. Menu_UpdateTextFields_panel [0..<8] meas (updatableCharTables m) = Some tabs'
      \<and> take 7 (tabs' ! i) = float_text (meas i) @ [if 0 = i mod 2 then CHR ''V'' else CHR ''A'']"
      using i assms(1) by (intro panel_slot) (simp_all add: list_all_iff)
    then obtain tabs' where
      "Menu_UpdateTextFields_panel [0..<8] meas (updatableCharTables m) = Some tabs'"
      "take 7 (tabs' ! i) = float_text (meas i) @ [if 0 = i mod 2 then CHR ''V'' else CHR ''A'']"
      by blast
    then show ?thesis
      using ft ch by (simp add: UpdateTextFields_panel_view [OF v] even_iff_mod_2_eq_zero)
  next
    assume v: "menuState m = BATTERY_VIEW" and i: "i < 2" and ch: "ch = BATTERY_VOLTAGE + i"
    have len: "length (updatableCharTables m) = 8"
      using assms(1) by (simp add: tables_ok_def)
    from i have "i = 0 \<or> i = 1" by auto
    then show ?thesis
      using ft ch len
      by (auto simp add: UpdateTextFields_battery_view [OF v assms(1)] length_float_text
            BATTERY_VOLTAGE_def BATTERY_CURRENT_def)
  qed
qed

text \<open>
  The example is the float nearest to 0.29, which is \<open>9730785 / 2 ^ 25\<close>, a little less than
  0.29: its exact hundredfold is below 29, the single-precision product is 29, and the table
  shows \<open>0,29\<close>.
\<close>

lemma float_029:
  "binary32 (9730785 / 33554432)" "float_mult (9730785 / 33554432) 100 = 29"
  "\<lfloor>9730785 / 33554432 * (100::real)\<rfloor> = 28"
proof -
  have e: "float_exponent (9730785 / 33554432) = - 2"
    by (intro float_exponent_eq) simp_all
  show "binary32 (9730785 / 33554432)"
    unfolding binary32_def float_round_def e by (simp add: round_half_even_def)
  have p: "float_exponent (9730785 / 33554432 * 100) = 4"
    by (intro float_exponent_eq) simp_all
  show "float_mult (9730785 / 33554432) 100 = 29"
    unfolding float_mult_def float_round_def p by (simp add: round_half_even_def)
  show "\<lfloor>9730785 / 33554432 * (100::real)\<rfloor> = 28"
    by simp
qed

theorem live_slot_text_witness:
  "\<exists>m'. Menu_UpdateTextFields (menu_init\<lparr>menuState := PANEL_VIEW\<rparr>) (\<lambda>i. 9730785 / 33554432)
           calib_init = Some m'
    \<and> take 7 (updatableCharTables m' ! 3) = ''  0,29A''"
proof -
  have 1: "tables_ok (updatableCharTables (menu_init\<lparr>menuState := PANEL_VIEW\<rparr>))"
    using menu_init_ok by (simp add: menu_ok_def)
  have 2: "menuState (menu_init\<lparr>menuState := PANEL_VIEW\<rparr>) = PANEL_VIEW \<and> (3::nat) < 8 \<and> (3::nat) = 3
         \<or> menuState (menu_init\<lparr>menuState := PANEL_VIEW\<rparr>) = BATTERY_VIEW \<and> (3::nat) < 2 \<and> 3 = BATTERY_VOLTAGE + 3"
    by simp
  have digits: "digit_char 0 = CHR ''0''" "digit_char 2 = CHR ''2''" "digit_char 29 = CHR ''9''"
    unfolding digit_char_def by code_simp+
  from live_slot_text [OF 1 2, of "\<lambda>i. 9730785 / 33554432" 29 calib_init]
  show ?thesis by (simp add: digits float_029)
qed

lemma char_code_eq:
  "c = CHR '','' \<longleftrightarrow> (of_char c :: nat) = 44"
  "c = CHR ''.'' \<longleftrightarrow> (of_char c :: nat) = 46"
  "c = CHR '' '' \<longleftrightarrow> (of_char c :: nat) = 32"
  "c = NUL \<longleftrightarrow> (of_char c :: nat) = 0"
proof -
  have "(of_char c :: nat) = of_char (CHR '','') \<longleftrightarrow> c = CHR '',''"
    "(of_char c :: nat) = of_char (CHR ''.'') \<longleftrightarrow> c = CHR ''.''"
    "(of_char c :: nat) = of_char (CHR '' '') \<longleftrightarrow> c = CHR '' ''"
    "(of_char c :: nat) = of_char NUL \<longleftrightarrow> c = NUL"
    by (rule of_char_eq_iff)+
  then show "c = CHR '','' \<longleftrightarrow> (of_char c :: nat) = 44"
    "c = CHR ''.'' \<longleftrightarrow> (of_char c :: nat) = 46"
    "c = CHR '' '' \<longleftrightarrow> (of_char c :: nat) = 32"
    "c = NUL \<longleftrightarrow> (of_char c :: nat) = 0"
    by (simp_all add: NUL_def)
qed

lemma LCD_char_not_drawn: "\<not> drawn_char c \<Longrightarrow> LCD_char sh c st = Some st"
  by (cases st) (auto simp add: LCD_char_def drawn_char_def glyph_char_def char_code_eq Let_def)

lemma LCD_text_skip:
  assumes "\<not> drawn_char c" "c \<noteq> NUL"
  shows "LCD_text sh (s1 @ c # s2) st = LCD_text sh (s1 @ s2) st"
proof (induction s1 arbitrary: st)
  case Nil
  show ?case using assms by (simp add: LCD_char_not_drawn)
next
  case (Cons a s1)
  show ?case
  proof (cases "LCD_char sh a st")
    case None
    then show ?thesis by simp
  next
    case (Some st')
    then show ?thesis by (simp add: Cons.IH)
  qed
qed

lemma y_end_of_pText [simp]: "y_end_of (f\<lparr>pText := s\<rparr>) = y_end_of f"
  by (simp add: y_end_of_def)

lemma LCD_fields_skip:
  assumes "\<not> drawn_char c" "c \<noteq> NUL"
  shows "LCD_fields currentRow (fs1 @ f\<lparr>pText := s1 @ c # s2\<rparr> # fs2) msgBuffer
       = LCD_fields currentRow (fs1 @ f\<lparr>pText := s1 @ s2\<rparr> # fs2) msgBuffer"
proof (induction fs1 arbitrary: msgBuffer)
  case Nil
  show ?case by (simp add: LCD_text_skip [OF assms] cong: if_cong)
next
  case (Cons g fs1)
  show ?case by (simp add: Cons.IH Let_def cong: Option.bind_cong)
qed

text \<open>
  Claim C7. A character that is not drawn (not \<open>A\<close> to \<open>Z\<close>, \<open>a\<close>, \<open>o\<close>, \<open>/\<close>, a
  digit, \<open>:\<close>, \<open>>\<close>, \<open><\<close>, a comma, a full stop or a space) and that is a character of
  the text (not the terminating \<open>NUL\<close>) can be deleted from the text of a text field
  without changing any page: nothing is drawn for it and the write position does not move.
\<close>

theorem undrawn_char_is_skipped:
  assumes "\<not> drawn_char c" "c \<noteq> NUL"
  shows "LCD_page currentRow (fs1 @ f\<lparr>pText := s1 @ c # s2\<rparr> # fs2)
       = LCD_page currentRow (fs1 @ f\<lparr>pText := s1 @ s2\<rparr> # fs2)"
  unfolding LCD_page_def using assms by (rule LCD_fields_skip)

theorem undrawn_char_is_skipped_witness:
  "\<not> drawn_char (CHR ''b'') \<and> CHR ''b'' \<noteq> NUL
   \<and> LCD_page 0 [\<lparr>pText = ''AbB'', x_pos = 3, y_pos = 0\<rparr>]
     = LCD_page 0 [\<lparr>pText = ''AB'', x_pos = 3, y_pos = 0\<rparr>]"
proof -
  have 1: "\<not> drawn_char (CHR ''b'')"
    by (simp add: drawn_char_def glyph_char_def)
  have 2: "CHR ''b'' \<noteq> NUL"
    by (simp add: NUL_def)
  from undrawn_char_is_skipped [OF 1 2, where currentRow = 0 and ?fs1.0 = "[]"
      and f = "\<lparr>pText = [], x_pos = 3, y_pos = 0\<rparr>" and ?s1.0 = "''A''" and ?s2.0 = "''B''" and ?fs2.0 = "[]"]
  show ?thesis using 1 2 by simp
qed

lemma upt_CHARWIDTH: "[0..<CHARWIDTH] = [0, 1, 2, 3, 4]"
  by (simp add: CHARWIDTH_def upt_rec)

lemma length_FONT_8P: "length FONT_8P = 210"
  by (simp add: FONT_8P_def)

lemma LCD_glyph_ok:
  "list_all (\<lambda>j. charPosition + j < 210 \<and> bufferPosition + j < n) js \<Longrightarrow> length msgBuffer = n \<Longrightarrow>
   succeeds (\<lambda>b. length b = n) (LCD_glyph js sh charPosition bufferPosition msgBuffer)"
  by (induction js arbitrary: msgBuffer) (simp_all add: or_into_def length_FONT_8P)

lemma glyph_position_le: "glyph_char c \<Longrightarrow> glyph_position c \<le> 205"
  by (auto simp add: glyph_char_def glyph_position_def Let_def)

lemma LCD_char_glyph:
  "glyph_char c \<Longrightarrow>
   LCD_char sh c (bufferPosition, msgBuffer)
     = LCD_glyph [0..<CHARWIDTH] sh (glyph_position c) bufferPosition msgBuffer
         \<bind> (\<lambda>b. Some ((bufferPosition + 6) mod 256, b))"
  by (auto simp add: LCD_char_def glyph_char_def glyph_position_def Let_def)

lemma LCD_char_comma:
  "c = CHR '','' \<or> c = CHR ''.'' \<Longrightarrow>
   LCD_char sh c (bufferPosition, msgBuffer)
     = or_into msgBuffer bufferPosition (sh 0xC0) \<bind> (\<lambda>b. Some ((bufferPosition + 2) mod 256, b))"
  by (auto simp add: LCD_char_def)

lemma LCD_char_space:
  "LCD_char sh (CHR '' '') (bufferPosition, msgBuffer) = Some ((bufferPosition + 6) mod 256, msgBuffer)"
  by (simp add: LCD_char_def CHARWIDTH_def add.commute)

lemma LCD_char_fits:
  assumes "char_mark c = 0 \<or> bufferPosition + char_mark c \<le> n" "length msgBuffer = n" "n \<le> 128"
  shows "succeeds (\<lambda>st. fst st \<le> bufferPosition + char_advance c \<and> length (snd st) = n)
           (LCD_char sh c (bufferPosition, msgBuffer))"
proof -
  consider "glyph_char c" | "\<not> glyph_char c" "c = CHR '','' \<or> c = CHR ''.''"
    | "\<not> glyph_char c" "c = CHR '' ''" | "\<not> drawn_char c"
    by (auto simp add: drawn_char_def)
  then show ?thesis
  proof cases
    case 1
    then have adv: "char_advance c = 6" "char_mark c = 5"
      by (simp_all add: char_advance_def char_mark_def)
    have "list_all (\<lambda>j. glyph_position c + j < 210 \<and> bufferPosition + j < n) [0, 1, 2, 3, 4]"
      using glyph_position_le [OF 1] assms(1) by (simp add: adv)
    then have "succeeds (\<lambda>b. length b = n)
        (LCD_glyph [0, 1, 2, 3, 4] sh (glyph_position c) bufferPosition msgBuffer)"
      using assms(2) by (rule LCD_glyph_ok)
    then show ?thesis
      by (simp only: LCD_char_glyph [OF 1] upt_CHARWIDTH adv)
         (erule succeeds_bind, simp)
  next
    case 2
    then have adv: "char_advance c = 2" "char_mark c = 1"
      by (simp_all add: char_advance_def char_mark_def)
    show ?thesis
      using assms by (simp add: LCD_char_comma [OF 2(2)] adv or_into_def)
  next
    case 3
    then have adv: "char_advance c = 6" by (simp add: char_advance_def)
    show ?thesis
      using assms 3 adv by (simp add: LCD_char_space)
  next
    case 4
    then have adv: "char_advance c = 0" by (auto simp add: char_advance_def drawn_char_def)
    show ?thesis
      using assms by (simp add: LCD_char_not_drawn [OF 4] adv)
  qed
qed

lemma LCD_text_fits:
  "text_extent s = 0 \<or> bufferPosition + text_extent s \<le> n \<Longrightarrow> length msgBuffer = n \<Longrightarrow> n \<le> 128 \<Longrightarrow>
   succeeds (\<lambda>st. length (snd st) = n) (LCD_text sh s (bufferPosition, msgBuffer))"
proof (induction s arbitrary: bufferPosition msgBuffer)
  case Nil
  then show ?case by simp
next
  case (Cons c s)
  show ?case
  proof (cases "c = NUL")
    case True
    with Cons.prems show ?thesis by simp
  next
    case False
    with Cons.prems(1) have mark: "char_mark c = 0 \<or> bufferPosition + char_mark c \<le> n"
      by (auto simp add: max_def split: if_splits)
    from False Cons.prems(1,3) have rest:
      "text_extent s = 0 \<or> bufferPosition + char_advance c + text_extent s \<le> n"
      by (auto simp add: max_def split: if_splits)
    have step: "succeeds (\<lambda>st. fst st \<le> bufferPosition + char_advance c \<and> length (snd st) = n)
           (LCD_char sh c (bufferPosition, msgBuffer))"
      using mark Cons.prems(2,3) by (rule LCD_char_fits)
    show ?thesis
      using False
      apply (simp del: succeeds_Some)
      apply (rule succeeds_bind [OF step])
      subgoal for st
        using Cons.IH [of "fst st" "snd st"] rest Cons.prems(3) by (cases st) auto
      done
  qed
qed

lemma LCD_fields_fits:
  "list_all field_fits fs \<Longrightarrow> length msgBuffer = 128 \<Longrightarrow>
   succeeds (\<lambda>b. length b = 128) (LCD_fields currentRow fs msgBuffer)"
proof (induction fs arbitrary: msgBuffer)
  case Nil
  then show ?case by simp
next
  case (Cons f fs)
  let ?d = "LCD_direction (y_pos f) (y_end_of f) currentRow"
  have fit: "text_extent (pText f) = 0 \<or> x_pos f + text_extent (pText f) \<le> 128"
    using Cons.prems(1) by (simp add: field_fits_def)
  have "succeeds (\<lambda>st. length (snd st) = 128)
      (LCD_text (LCD_shift ?d (y_pos f) (y_end_of f) currentRow) (pText f) (x_pos f, msgBuffer))"
    using fit Cons.prems(2) by (intro LCD_text_fits) simp_all
  then have draw: "succeeds (\<lambda>b. length b = 128)
      (if ?d \<noteq> 0 then
         LCD_text (LCD_shift ?d (y_pos f) (y_end_of f) currentRow) (pText f) (x_pos f, msgBuffer)
           \<bind> (\<lambda>st. Some (snd st))
       else Some msgBuffer)"
    using Cons.prems(2) by (auto intro!: succeeds_if elim!: succeeds_bind)
  show ?case
    unfolding LCD_fields.simps Let_def
    by (rule succeeds_bind [OF draw]) (use Cons in simp)
qed

text \<open>
  Claim C5, as stated, fails: the display module has no test of the write position. The
  letter \<open>A\<close> at column 126 has its third column at index 128 of the 128-byte buffer, and
  drawing page 0 stores there.
\<close>

theorem page_buffer_overrun_counterexample:
  "LCD_page 0 [\<lparr>pText = ''A'', x_pos = 126, y_pos = 0\<rparr>] = None"
  by (simp add: LCD_page_def LCD_direction_def y_end_of_def LCD_char_def NUL_def or_into_def
      upt_CHARWIDTH length_FONT_8P)

text \<open>
  Claim C5, amended. When every text field fits, that is, its column plus the width of its
  text is at most 128, drawing a page stores only at the indices 0 to 127 of the buffer: the
  page is drawn and is 128 bytes long. Nothing is clamped or skipped for a field that
  does not fit.
\<close>

theorem page_within_buffer:
  assumes "list_all field_fits fs"
  shows "\<exists>b. LCD_page currentRow fs = Some b \<and> length b = 128"
  using LCD_fields_fits [OF assms, of "replicate 128 0" currentRow]
  by (auto simp add: LCD_page_def dest: succeedsD)

theorem page_within_buffer_witness:
  "list_all field_fits [\<lparr>pText = ''A,'', x_pos = 120, y_pos = 0\<rparr>]
   \<and> (\<exists>b. LCD_page 0 [\<lparr>pText = ''A,'', x_pos = 120, y_pos = 0\<rparr>] = Some b \<and> length b = 128)"
proof -
  have fits: "list_all field_fits [\<lparr>pText = ''A,'', x_pos = 120, y_pos = 0\<rparr>]"
    by (simp add: field_fits_def char_advance_def char_mark_def glyph_char_def NUL_def)
  from page_within_buffer [OF fits, of 0] fits show ?thesis by simp
qed

lemma font_bytes: "list_all (\<lambda>v. v < 128) FONT_8P"
  by (simp add: FONT_8P_def)

lemma font_byte_less: "i < 210 \<Longrightarrow> FONT_8P ! i < 128"
  using font_bytes by (simp add: list_all_length length_FONT_8P)

lemma of_nat_drop_bit_word8: "v < 256 \<Longrightarrow> (of_nat (drop_bit n v) :: 8 word) = drop_bit n (of_nat v)"
proof -
  assume v: "v < 256"
  have "drop_bit n v \<le> v" by (simp add: drop_bit_eq_div)
  with v have "drop_bit n v < 256" by simp
  with v show ?thesis
    by (simp add: word_unat_eq_iff unat_drop_bit_eq unat_of_nat)
qed

lemma split_rejoin: "k \<le> 8 \<Longrightarrow> drop_bit k (push_bit k w) OR push_bit (8 - k) (drop_bit (8 - k) w) = (w :: 8 word)"
proof (rule bit_eqI)
  fix n
  assume k: "k \<le> 8" and "possible_bit TYPE(8 word) n"
  then have n: "n < 8" by (simp add: possible_bit_word)
  show "bit (drop_bit k (push_bit k w) OR push_bit (8 - k) (drop_bit (8 - k) w)) n = bit w n"
  proof (cases "n + k < 8")
    case True
    with k n show ?thesis
      by (auto simp add: bit_or_iff bit_drop_bit_eq bit_push_bit_iff possible_bit_word)
  next
    case False
    then have "8 - k \<le> n" "8 - k + (n - (8 - k)) = n" using k by simp_all
    with False k n show ?thesis
      by (auto simp add: bit_or_iff bit_drop_bit_eq bit_push_bit_iff possible_bit_word)
  qed
qed

lemma of_nat_push_bit_word8: "(of_nat (push_bit k v) :: 8 word) = push_bit k (of_nat v)"
  by (simp add: push_bit_of_nat)

lemma drop_bit_font_zero: "v < 128 \<Longrightarrow> 9 \<le> n \<Longrightarrow> (of_nat (drop_bit n v) :: 8 word) = 0"
proof -
  assume "v < 128" "9 \<le> n"
  have "(2::nat) ^ 9 \<le> 2 ^ n" using \<open>9 \<le> n\<close> by (intro power_increasing) simp_all
  then have "v < 2 ^ n" using \<open>v < 128\<close> by simp
  then show ?thesis by (simp add: drop_bit_eq_div)
qed

lemma glyph_char_not_NUL: "glyph_char c \<Longrightarrow> c \<noteq> NUL"
  by (auto simp add: glyph_char_def NUL_def)

lemma LCD_glyph_draw:
  assumes "x + 5 \<le> length buf" "p + 5 \<le> 210"
  shows "LCD_glyph [0, 1, 2, 3, 4] sh p x buf =
    Some (buf[x := buf ! x OR sh (FONT_8P ! p),
              x + 1 := buf ! (x + 1) OR sh (FONT_8P ! (p + 1)),
              x + 2 := buf ! (x + 2) OR sh (FONT_8P ! (p + 2)),
              x + 3 := buf ! (x + 3) OR sh (FONT_8P ! (p + 3)),
              x + 4 := buf ! (x + 4) OR sh (FONT_8P ! (p + 4))])"
  using assms by (simp add: or_into_def length_FONT_8P)

lemma page_single_glyph:
  assumes "glyph_char c"
  shows "LCD_page currentRow [\<lparr>pText = [c], x_pos = x, y_pos = y\<rparr>]
    = (if LCD_direction y ((y + 8) mod 256) currentRow \<noteq> 0
       then LCD_glyph [0, 1, 2, 3, 4]
              (LCD_shift (LCD_direction y ((y + 8) mod 256) currentRow) y ((y + 8) mod 256) currentRow)
              (glyph_position c) x (replicate 128 0)
       else Some (replicate 128 0))"
proof (cases "LCD_glyph [0, 1, 2, 3, 4]
              (LCD_shift (LCD_direction y ((y + 8) mod 256) currentRow) y ((y + 8) mod 256) currentRow)
              (glyph_position c) x (replicate 128 0)")
  case None
  then show ?thesis
    using glyph_char_not_NUL [OF assms]
    by (simp add: LCD_page_def y_end_of_def LCD_char_glyph [OF assms] upt_CHARWIDTH)
next
  case (Some b)
  then show ?thesis
    using glyph_char_not_NUL [OF assms]
    by (simp add: LCD_page_def y_end_of_def LCD_char_glyph [OF assms] upt_CHARWIDTH)
qed

lemma LCD_glyph_draw_blank:
  assumes "x + 5 \<le> 128" "p + 5 \<le> 210"
  shows "LCD_glyph [0, 1, 2, 3, 4] sh p x (replicate 128 0) =
    Some ((replicate 128 0)
             [x := sh (FONT_8P ! p),
              x + 1 := sh (FONT_8P ! (p + 1)),
              x + 2 := sh (FONT_8P ! (p + 2)),
              x + 3 := sh (FONT_8P ! (p + 3)),
              x + 4 := sh (FONT_8P ! (p + 4))])"
proof -
  have "x + 5 \<le> length (replicate 128 (0 :: 8 word))" using assms(1) by simp
  from LCD_glyph_draw [OF this assms(2), of sh] assms(1) show ?thesis
    by (simp del: LCD_glyph.simps)
qed

lemma glyph_drawn_column:
  assumes "x + 5 \<le> 128" "p + 5 \<le> 210" "j < 5"
  shows "\<exists>b. LCD_glyph [0, 1, 2, 3, 4] sh p x (replicate 128 0) = Some b
    \<and> b ! (x + j) = sh (FONT_8P ! (p + j))"
proof -
  from assms(3) have "j = 0 \<or> j = 1 \<or> j = 2 \<or> j = 3 \<or> j = 4" by auto
  then show ?thesis
    unfolding LCD_glyph_draw_blank [OF assms(1,2)]
    using assms(1) by auto
qed

lemma replicate_update_same: "(replicate n a)[i := a] = replicate n a"
  by (cases "i < n") (auto simp add: list_eq_iff_nth_eq nth_list_update)

lemma glyph_drawn_zero:
  assumes "x + 5 \<le> 128" "p + 5 \<le> 210" "\<And>j. j < 5 \<Longrightarrow> sh (FONT_8P ! (p + j)) = 0"
  shows "LCD_glyph [0, 1, 2, 3, 4] sh p x (replicate 128 0) = Some (replicate 128 0)"
proof -
  have "sh (FONT_8P ! p) = 0" "sh (FONT_8P ! (p + 1)) = 0" "sh (FONT_8P ! (p + 2)) = 0"
    "sh (FONT_8P ! (p + 3)) = 0" "sh (FONT_8P ! (p + 4)) = 0"
    using assms(3) [of 0] assms(3) [of 1] assms(3) [of 2] assms(3) [of 3] assms(3) [of 4]
    by simp_all
  then show ?thesis
    unfolding LCD_glyph_draw_blank [OF assms(1,2)]
    by (simp add: replicate_update_same)
qed

lemma direction_top: "k < 8 \<Longrightarrow> LCD_direction (8 * r + k) ye r = 1"
  by (simp add: LCD_direction_def)

lemma direction_next: "k < 8 \<Longrightarrow> LCD_direction (8 * r + k) (8 * r + k + 8) (r + 1) = 2"
  by (simp add: LCD_direction_def)

lemma direction_third: "1 \<le> k \<Longrightarrow> k < 8 \<Longrightarrow> LCD_direction (8 * r + k) (8 * r + k + 8) (r + 2) = 2"
  by (simp add: LCD_direction_def)

lemma direction_else:
  "k < 8 \<Longrightarrow> row \<noteq> r \<Longrightarrow> row \<noteq> r + 1 \<Longrightarrow> row \<noteq> r + 2 \<Longrightarrow>
   LCD_direction (8 * r + k) (8 * r + k + 8) row = 0"
  by (simp add: LCD_direction_def)

lemma shift_top: "LCD_shift 1 (8 * r + k) ye r v = push_bit k (of_nat v)"
  by (simp add: LCD_shift_def of_nat_push_bit_word8)

lemma shift_next:
  "k < 8 \<Longrightarrow> v < 256 \<Longrightarrow> LCD_shift 2 (8 * r + k) (8 * r + k + 8) (r + 1) v = drop_bit (8 - k) (of_nat v)"
proof -
  assume k: "k < 8" and v: "v < 256"
  have "nat (8 - (int (8 * r + k + 8) - int ((r + 1) * 8))) = 8 - k"
    using k by simp
  then show ?thesis
    using v by (simp add: LCD_shift_def of_nat_drop_bit_word8)
qed

lemma shift_third:
  "1 \<le> k \<Longrightarrow> k < 8 \<Longrightarrow> v < 128 \<Longrightarrow> LCD_shift 2 (8 * r + k) (8 * r + k + 8) (r + 2) v = 0"
proof -
  assume k: "1 \<le> k" "k < 8" and v: "v < 128"
  have "nat (8 - (int (8 * r + k + 8) - int ((r + 2) * 8))) = 16 - k"
    using k by simp
  moreover have "9 \<le> 16 - k" using k by simp
  ultimately show ?thesis
    using v by (simp add: LCD_shift_def drop_bit_font_zero)
qed

lemma page_at:
  assumes "glyph_char c" "LCD_direction y ((y + 8) mod 256) currentRow = d" "d \<noteq> 0"
  shows "LCD_page currentRow [\<lparr>pText = [c], x_pos = x, y_pos = y\<rparr>]
    = LCD_glyph [0, 1, 2, 3, 4] (LCD_shift d y ((y + 8) mod 256) currentRow)
        (glyph_position c) x (replicate 128 0)"
  using assms(2,3) by (simp only: page_single_glyph [OF assms(1)] simp_thms if_True)

lemma page_blank:
  assumes "glyph_char c" "LCD_direction y ((y + 8) mod 256) currentRow = 0"
  shows "LCD_page currentRow [\<lparr>pText = [c], x_pos = x, y_pos = y\<rparr>] = Some (replicate 128 0)"
  using assms(2) by (simp only: page_single_glyph [OF assms(1)] simp_thms if_False)

text \<open>
  Claim C6. A single text field with one character of the font table at row \<open>y\<close>, where
  \<open>k = y mod 8\<close> is between 1 and 7 (for example \<open>y = 5\<close>), is drawn on the page
  \<open>y div 8\<close> with every glyph column shifted left by \<open>k\<close> and on the next page with the
  column shifted right by \<open>8 - k\<close>; shifting the byte of the first page right by \<open>k\<close> and
  that of the second page left by \<open>8 - k\<close> and or-ing them gives the column of the font
  table; every other page is blank. The field lies inside the line (\<open>x + 5 \<le> 128\<close>) and
  \<open>y + 8\<close> fits the \<open>uint8_t\<close> it is stored in (\<open>y < 248\<close>; the display has the rows
  0 to 63). \<open>LCD_page\<close> is the page as drawn for any page number; the display module draws
  the pages 0 to 7.
\<close>

theorem glyph_split_across_pages:
  assumes "glyph_char c" "x + 5 \<le> 128" "y < 248" "k = y mod 8" "1 \<le> k" "j < 5"
  shows "\<exists>top bot.
     LCD_page (y div 8) [\<lparr>pText = [c], x_pos = x, y_pos = y\<rparr>] = Some top
     \<and> LCD_page (y div 8 + 1) [\<lparr>pText = [c], x_pos = x, y_pos = y\<rparr>] = Some bot
     \<and> top ! (x + j) = push_bit k (glyph_column c j)
     \<and> bot ! (x + j) = drop_bit (8 - k) (glyph_column c j)
     \<and> drop_bit k (top ! (x + j)) OR push_bit (8 - k) (bot ! (x + j)) = glyph_column c j
     \<and> (\<forall>row. row \<noteq> y div 8 \<and> row \<noteq> y div 8 + 1 \<longrightarrow>
           LCD_page row [\<lparr>pText = [c], x_pos = x, y_pos = y\<rparr>] = Some (replicate 128 0))"
proof -
  define r where "r = y div 8"
  have y: "y = 8 * r + k" and k: "k < 8"
    using assms(4) by (simp_all add: r_def)
  have ye: "(y + 8) mod 256 = 8 * r + k + 8"
    using assms(3) y by simp
  define p where "p = glyph_position c"
  have p: "p + 5 \<le> 210"
    using glyph_position_le [OF assms(1)] by (simp add: p_def)
  have font: "FONT_8P ! (p + i) < 128" if "i < 5" for i
    using that p by (intro font_byte_less) simp
  let ?f = "[\<lparr>pText = [c], x_pos = x, y_pos = y\<rparr>]"
  let ?g = "glyph_column c j"
  have g: "?g = of_nat (FONT_8P ! (p + j))"
    by (simp add: glyph_column_def p_def)
  have gj: "FONT_8P ! (p + j) < 256"
    using font [OF assms(6)] by simp
  have d1: "LCD_direction y ((y + 8) mod 256) r = 1"
    unfolding ye unfolding y by (rule direction_top [OF k])
  have d2: "LCD_direction y ((y + 8) mod 256) (r + 1) = 2"
    unfolding ye unfolding y by (rule direction_next [OF k])
  have top_page: "LCD_page r ?f
      = LCD_glyph [0, 1, 2, 3, 4] (LCD_shift 1 y ((y + 8) mod 256) r) p x (replicate 128 0)"
    unfolding p_def by (rule page_at [OF assms(1) d1]) simp
  have bot_page: "LCD_page (r + 1) ?f
      = LCD_glyph [0, 1, 2, 3, 4] (LCD_shift 2 y ((y + 8) mod 256) (r + 1)) p x (replicate 128 0)"
    unfolding p_def by (rule page_at [OF assms(1) d2]) simp
  obtain top where top: "LCD_page r ?f = Some top"
    "top ! (x + j) = LCD_shift 1 y ((y + 8) mod 256) r (FONT_8P ! (p + j))"
    using glyph_drawn_column [OF assms(2) p assms(6)] top_page by metis
  obtain bot where bot: "LCD_page (r + 1) ?f = Some bot"
    "bot ! (x + j) = LCD_shift 2 y ((y + 8) mod 256) (r + 1) (FONT_8P ! (p + j))"
    using glyph_drawn_column [OF assms(2) p assms(6)] bot_page by metis
  have top_byte: "top ! (x + j) = push_bit k ?g"
    by (simp only: top(2) g y shift_top)
  have bot_byte: "bot ! (x + j) = drop_bit (8 - k) ?g"
    by (simp only: bot(2) g ye) (simp only: y shift_next [OF k gj])
  have rejoin: "drop_bit k (top ! (x + j)) OR push_bit (8 - k) (bot ! (x + j)) = ?g"
    unfolding top_byte bot_byte using k by (intro split_rejoin) simp
  have others: "LCD_page row ?f = Some (replicate 128 0)" if "row \<noteq> r" "row \<noteq> r + 1" for row
  proof (cases "row = r + 2")
    case True
    have zero: "LCD_shift 2 (8 * r + k) (8 * r + k + 8) (r + 2) (FONT_8P ! (p + i)) = 0"
      if "i < 5" for i
      using assms(5) k font [OF that] by (rule shift_third)
    have d3: "LCD_direction y ((y + 8) mod 256) (r + 2) = 2"
      unfolding ye unfolding y by (rule direction_third [OF assms(5) k])
    have "LCD_page (r + 2) ?f
      = LCD_glyph [0, 1, 2, 3, 4] (LCD_shift 2 y ((y + 8) mod 256) (r + 2)) p x (replicate 128 0)"
      unfolding p_def by (rule page_at [OF assms(1) d3]) simp
    also have "\<dots> = Some (replicate 128 0)"
      using assms(2) p zero unfolding ye unfolding y by (rule glyph_drawn_zero)
    finally show ?thesis using True by simp
  next
    case False
    with that have "LCD_direction (8 * r + k) (8 * r + k + 8) row = 0"
      using k by (intro direction_else) simp_all
    then have "LCD_direction y ((y + 8) mod 256) row = 0"
      unfolding ye unfolding y .
    with assms(1) show ?thesis by (rule page_blank)
  qed
  from top(1) bot(1) top_byte bot_byte rejoin others show ?thesis
    unfolding r_def [symmetric] by blast
qed

theorem glyph_split_across_pages_witness:
  "glyph_char (CHR ''A'')
   \<and> (\<exists>top bot.
     LCD_page 0 [\<lparr>pText = ''A'', x_pos = 2, y_pos = 5\<rparr>] = Some top
     \<and> LCD_page 1 [\<lparr>pText = ''A'', x_pos = 2, y_pos = 5\<rparr>] = Some bot
     \<and> top ! 3 = 32 \<and> bot ! 3 = 1
     \<and> drop_bit 5 (top ! 3) OR push_bit 3 (bot ! 3) = 9)"
proof -
  have 1: "glyph_char (CHR ''A'')"
    by (simp add: glyph_char_def)
  have col: "glyph_column (CHR ''A'') (Suc 0) = 9"
    by (simp add: glyph_column_def glyph_position_def FONT_8P_def)
  have 2: "(2::nat) + 5 \<le> 128" "(5::nat) < 248" "(5::nat) = 5 mod 8" "(1::nat) \<le> 5" "(1::nat) < 5"
    by simp_all
  from glyph_split_across_pages [OF 1 2]
  obtain top bot where
    "LCD_page (5 div 8) [\<lparr>pText = ''A'', x_pos = 2, y_pos = 5\<rparr>] = Some top"
    "LCD_page (5 div 8 + 1) [\<lparr>pText = ''A'', x_pos = 2, y_pos = 5\<rparr>] = Some bot"
    "top ! (2 + 1) = push_bit 5 (glyph_column (CHR ''A'') 1)"
    "bot ! (2 + 1) = drop_bit (8 - 5) (glyph_column (CHR ''A'') 1)"
    "drop_bit 5 (top ! (2 + 1)) OR push_bit (8 - 5) (bot ! (2 + 1)) = glyph_column (CHR ''A'') 1"
    by (elim exE conjE) (rule that; assumption)
  then have "LCD_page 0 [\<lparr>pText = ''A'', x_pos = 2, y_pos = 5\<rparr>] = Some top
     \<and> LCD_page 1 [\<lparr>pText = ''A'', x_pos = 2, y_pos = 5\<rparr>] = Some bot
     \<and> top ! 3 = 32 \<and> bot ! 3 = 1
     \<and> drop_bit 5 (top ! 3) OR push_bit 3 (bot ! 3) = 9"
    by (simp add: col)
  with 1 show ?thesis by blast
qed

end
